theory Spec2Isabelle
  imports Main
begin

section \<open>Data models of \<^verbatim>\<open>api.py\<close>\<close>

text \<open>The enumeration \<^verbatim>\<open>TaskStatus\<close> and the \<^verbatim>\<open>.value\<close> of each member.\<close>

datatype TaskStatus = PENDING | RUNNING | STOPPED | COMPLETED | ERROR

fun status_value :: "TaskStatus \<Rightarrow> string" where
  "status_value PENDING = ''pending''"
| "status_value RUNNING = ''running''"
| "status_value STOPPED = ''stopped''"
| "status_value COMPLETED = ''completed''"
| "status_value ERROR = ''error''"

text \<open>
  One entry of \<^verbatim>\<open>services_stats\<close> is the dict \<^verbatim>\<open>{"success": 0, "failed": 0}\<close>; the whole
  \<^verbatim>\<open>services_stats\<close> is a dict from service name to such an entry, kept here in
  insertion order as Python does.
\<close>

record counts =
  n_success :: int
  n_failed :: int

type_synonym stats = "(string \<times> counts) list"

text \<open>
  The Python values that occur as fields of a task dict. \<open>PJsonText d\<close> is the
  \<^verbatim>\<open>str\<close> that \<^verbatim>\<open>json.dumps(d)\<close> returns.
\<close>

datatype pyval = PNone | PStr string | PInt int | PDict stats | PJsonText stats

type_synonym task = "string \<rightharpoonup> pyval"

datatype py_error = ValueError | KeyError

subsection \<open>Decimal numerals: \<^verbatim>\<open>str(n)\<close> and \<^verbatim>\<open>int(s)\<close>\<close>

definition digit_char :: "nat \<Rightarrow> char" where
  "digit_char d = char_of (48 + d)"

fun str_nat :: "nat \<Rightarrow> string" where
  "str_nat n = (if n < 10 then [digit_char n] else str_nat (n div 10) @ [digit_char (n mod 10)])"

declare str_nat.simps [simp del]

definition str_int :: "int \<Rightarrow> string" where
  "str_int i = (if i < 0 then CHR ''-'' # str_nat (nat (- i)) else str_nat (nat i))"

definition is_digit :: "char \<Rightarrow> bool" where
  "is_digit c = (48 \<le> (of_char c :: nat) \<and> (of_char c :: nat) \<le> 57)"

definition digit_val :: "char \<Rightarrow> nat" where
  "digit_val c = of_char c - 48"

definition nat_of_str :: "string \<Rightarrow> nat option" where
  "nat_of_str s =
     (if s \<noteq> [] \<and> list_all is_digit s
      then Some (foldl (\<lambda>a c. 10 * a + digit_val c) 0 s) else None)"

text \<open>
  \<^verbatim>\<open>int(s)\<close> on an optional minus sign followed by ASCII digits; anything else is the
  \<^verbatim>\<open>ValueError\<close> (\<open>None\<close> here). Python also accepts surrounding blanks, a plus sign
  and underscores between digits; \<^verbatim>\<open>str\<close> of an int never produces those.
\<close>

definition int_of_str :: "string \<Rightarrow> int option" where
  "int_of_str s =
     (case s of
        [] \<Rightarrow> None
      | c # cs \<Rightarrow>
          if c = CHR ''-'' then map_option (\<lambda>n. - int n) (nat_of_str cs)
          else map_option int (nat_of_str s))"

section \<open>The Upstash Redis store\<close>

text \<open>
  Redis is an external collaborator; the commands the program issues are modelled with
  their documented meaning. A hash value is a string. \<open>Str s\<close> is the string \<open>s\<close>;
  \<open>Json d\<close> is the text \<^verbatim>\<open>json.dumps(d)\<close>, which \<^verbatim>\<open>json.loads\<close> reads back as \<open>d\<close>.
  Each key may carry a remaining time to live in seconds.
\<close>

datatype hval = Str string | Json stats

type_synonym hash = "string \<rightharpoonup> hval"

record redis_db =
  hashes :: "string \<rightharpoonup> hash"
  ttl :: "string \<rightharpoonup> nat"

definition empty_db :: redis_db where
  "empty_db = \<lparr>hashes = Map.empty, ttl = Map.empty\<rparr>"

text \<open>\<^verbatim>\<open>HSET key f1 v1 f2 v2 ...\<close>: creates the hash when the key is missing, overwrites
  the named fields, keeps the others and the key's time to live. The mapping is built
  from a Python dict, so no field occurs in it twice.\<close>

definition hset :: "string \<Rightarrow> (string \<times> hval) list \<Rightarrow> redis_db \<Rightarrow> redis_db" where
  "hset key mapping db =
     db\<lparr>hashes := (hashes db)(key \<mapsto>
           (case hashes db key of None \<Rightarrow> Map.empty | Some h \<Rightarrow> h) ++ map_of mapping)\<rparr>"

text \<open>\<^verbatim>\<open>HGETALL key\<close>: the empty dict for a missing key.\<close>

definition hgetall :: "string \<Rightarrow> redis_db \<Rightarrow> hash" where
  "hgetall key db = (case hashes db key of None \<Rightarrow> Map.empty | Some h \<Rightarrow> h)"

text \<open>\<^verbatim>\<open>DEL key\<close>: the number of keys removed and the new store.\<close>

definition del :: "string \<Rightarrow> redis_db \<Rightarrow> int \<times> redis_db" where
  "del key db =
     (if hashes db key = None then (0, db)
      else (1, db\<lparr>hashes := (hashes db)(key := None), ttl := (ttl db)(key := None)\<rparr>))"

text \<open>\<^verbatim>\<open>EXPIRE key seconds\<close>: no effect on a missing key.\<close>

definition expire :: "string \<Rightarrow> nat \<Rightarrow> redis_db \<Rightarrow> redis_db" where
  "expire key secs db =
     (if hashes db key = None then db else db\<lparr>ttl := (ttl db)(key \<mapsto> secs)\<rparr>)"

text \<open>The passing of \<open>d\<close> seconds: every key whose time to live is used up is removed.\<close>

definition elapse :: "nat \<Rightarrow> redis_db \<Rightarrow> redis_db" where
  "elapse d db =
     \<lparr>hashes = (\<lambda>k. case ttl db k of None \<Rightarrow> hashes db k
                     | Some t \<Rightarrow> if t \<le> d then None else hashes db k),
      ttl = (\<lambda>k. case ttl db k of None \<Rightarrow> None
                     | Some t \<Rightarrow> if t \<le> d then None else Some (t - d))\<rparr>"

section \<open>\<^verbatim>\<open>RedisManager\<close>\<close>

definition task_prefix :: string where
  "task_prefix = ''otp:task:''"

definition get_key :: "string \<Rightarrow> string" where
  "get_key task_id = task_prefix @ task_id"

text \<open>The conversion to a hash value that \<^verbatim>\<open>create_task\<close> and \<^verbatim>\<open>update_task\<close> share:
  \<^verbatim>\<open>json.dumps\<close> for a dict, the empty string for \<^verbatim>\<open>None\<close>, \<^verbatim>\<open>str(v)\<close> otherwise.\<close>

fun redis_value :: "pyval \<Rightarrow> hval" where
  "redis_value (PDict d) = Json d"
| "redis_value PNone = Str ''''"
| "redis_value (PStr s) = Str s"
| "redis_value (PInt n) = Str (str_int n)"
| "redis_value (PJsonText d) = Json d"

definition redis_data :: "(string \<times> pyval) list \<Rightarrow> (string \<times> hval) list" where
  "redis_data items = map (\<lambda>(k, v). (k, redis_value v)) items"

definition initial_task_data :: "string \<Rightarrow> string \<Rightarrow> int \<Rightarrow> string \<Rightarrow> (string \<times> pyval) list" where
  "initial_task_data task_id phone_number interval now =
     [(''task_id'', PStr task_id),
      (''phone_number'', PStr phone_number),
      (''interval'', PInt interval),
      (''status'', PStr (status_value PENDING)),
      (''created_at'', PStr now),
      (''started_at'', PNone),
      (''stopped_at'', PNone),
      (''iterations'', PInt 0),
      (''total_requests'', PInt 0),
      (''successful_requests'', PInt 0),
      (''failed_requests'', PInt 0),
      (''last_activity'', PNone),
      (''services_stats'', PDict [])]"

text \<open>\<^verbatim>\<open>RedisManager.create_task\<close>; \<open>now\<close> is \<^verbatim>\<open>datetime.now().isoformat()\<close>.\<close>

definition create_task ::
  "string \<Rightarrow> string \<Rightarrow> int \<Rightarrow> string \<Rightarrow> redis_db \<Rightarrow> (string \<times> pyval) list \<times> redis_db" where
  "create_task task_id phone_number interval now db =
     (let task_data = initial_task_data task_id phone_number interval now;
          key = get_key task_id;
          db1 = hset key (redis_data task_data) db;
          db2 = expire key 86400 db1
      in (task_data, db2))"

definition int_fields :: "string list" where
  "int_fields = [''iterations'', ''total_requests'', ''successful_requests'',
                 ''failed_requests'', ''interval'']"

text \<open>
  The parsing of one field in \<^verbatim>\<open>get_task\<close>. \<^verbatim>\<open>json.loads\<close> of a text that
  \<^verbatim>\<open>json.dumps\<close> did not write is taken to raise (\<^verbatim>\<open>JSONDecodeError\<close> is a
  \<^verbatim>\<open>ValueError\<close>); the program writes nothing else into \<^verbatim>\<open>services_stats\<close>.
\<close>

definition parse_value :: "string \<Rightarrow> hval \<Rightarrow> py_error + pyval" where
  "parse_value k v =
     (if k \<in> set [''services_stats''] then
        (case v of
           Json d \<Rightarrow> Inr (PDict d)
         | Str s \<Rightarrow> if s = [] then Inr (PDict []) else Inl ValueError)
      else if k \<in> set int_fields then
        (case v of
           Json d \<Rightarrow> Inl ValueError
         | Str s \<Rightarrow>
             if s = [] then Inr (PInt 0)
             else (case int_of_str s of None \<Rightarrow> Inl ValueError | Some n \<Rightarrow> Inr (PInt n)))
      else
        (case v of
           Json d \<Rightarrow> Inr (PJsonText d)
         | Str s \<Rightarrow> if s = ''None'' \<or> s = [] then Inr PNone else Inr (PStr s)))"

definition parse_fails :: "hash \<Rightarrow> bool" where
  "parse_fails data =
     (\<exists>k \<in> set (''services_stats'' # int_fields).
        case data k of None \<Rightarrow> False | Some v \<Rightarrow> isl (parse_value k v))"

text \<open>The dict \<^verbatim>\<open>parsed\<close> that the loop of \<^verbatim>\<open>get_task\<close> builds when no field raises.\<close>

definition parsed :: "hash \<Rightarrow> task" where
  "parsed data =
     (\<lambda>k. case data k of
            None \<Rightarrow> None
          | Some v \<Rightarrow> (case parse_value k v of Inl e \<Rightarrow> None | Inr p \<Rightarrow> Some p))"

text \<open>\<^verbatim>\<open>RedisManager.get_task\<close> on the dict that \<^verbatim>\<open>hgetall\<close> returned: \<open>Inr None\<close> is
  the return of \<^verbatim>\<open>None\<close>, \<open>Inl\<close> an exception.\<close>

definition parse_task :: "hash \<Rightarrow> py_error + task option" where
  "parse_task data =
     (if data = Map.empty then Inr None
      else if parse_fails data then Inl ValueError
      else Inr (Some (parsed data)))"

definition get_task :: "redis_db \<Rightarrow> string \<Rightarrow> py_error + task option" where
  "get_task db task_id = parse_task (hgetall (get_key task_id) db)"

text \<open>A field of the task that \<^verbatim>\<open>get_task\<close> returns, \<open>None\<close> when there is no such
  field, no task, or an exception.\<close>

definition task_field :: "redis_db \<Rightarrow> string \<Rightarrow> string \<Rightarrow> pyval option" where
  "task_field db task_id k =
     (case get_task db task_id of Inr (Some t) \<Rightarrow> t k | _ \<Rightarrow> None)"

text \<open>\<^verbatim>\<open>RedisManager.update_task\<close>: the merge-update.\<close>

definition update_task :: "string \<Rightarrow> (string \<times> pyval) list \<Rightarrow> redis_db \<Rightarrow> redis_db" where
  "update_task task_id updates db = hset (get_key task_id) (redis_data updates) db"

text \<open>\<^verbatim>\<open>RedisManager.delete_task\<close>.\<close>

definition redis_delete_task :: "string \<Rightarrow> redis_db \<Rightarrow> bool \<times> redis_db" where
  "redis_delete_task task_id db =
     (let (result, db') = del (get_key task_id) db in (result > 0, db'))"

section \<open>Services\<close>

text \<open>
  The exceptions that \<^verbatim>\<open>send_request\<close> tells apart, all of them instances of
  \<^verbatim>\<open>Exception\<close>: an \<^verbatim>\<open>httpx.TimeoutException\<close>, any other \<^verbatim>\<open>httpx.RequestError\<close>, anything
  else; each with its \<^verbatim>\<open>str(e)\<close>. And what \<^verbatim>\<open>send_request\<close> reads of an
  \<^verbatim>\<open>httpx.Response\<close>: the status code, the \<^verbatim>\<open>content-type\<close> header (the empty string
  when absent), the text, and what \<^verbatim>\<open>response.json()\<close> does: raise (\<open>Inl\<close>) or return a
  document.
\<close>

datatype py_exception = TimeoutException string | RequestError string | OtherException string

datatype payload = Text string | Document string

record response =
  resp_status_code :: int
  resp_content_type :: string
  resp_text :: string
  resp_json :: "py_exception + string"

text \<open>The dataclass \<^verbatim>\<open>ServiceResponse\<close>; \<^verbatim>\<open>__post_init__\<close> computes \<open>success\<close>.\<close>

record ServiceResponse =
  service_name :: string
  status_code :: "int option"
  response_data :: "payload option"
  error :: "string option"
  success :: bool

definition new_ServiceResponse ::
  "string \<Rightarrow> int option \<Rightarrow> payload option \<Rightarrow> string option \<Rightarrow> ServiceResponse" where
  "new_ServiceResponse nm sc rd err =
     \<lparr>service_name = nm, status_code = sc, response_data = rd, error = err,
      success = (err = None)\<rparr>"

datatype service = HungamaService | ShemarooMeService | UnacademyService

fun name :: "service \<Rightarrow> string" where
  "name HungamaService = ''Hungama''"
| "name ShemarooMeService = ''ShemarooMe''"
| "name UnacademyService = ''Unacademy''"

definition SERVICES :: "service list" where
  "SERVICES = [HungamaService, ShemarooMeService, UnacademyService]"

definition startswith :: "string \<Rightarrow> string \<Rightarrow> bool" where
  "startswith s p = (take (length p) s = p)"

definition parse_response :: "response \<Rightarrow> py_exception + payload" where
  "parse_response resp =
     (if startswith (resp_content_type resp) ''application/json''
      then (case resp_json resp of Inl e \<Rightarrow> Inl e | Inr d \<Rightarrow> Inr (Document d))
      else Inr (Text (resp_text resp)))"

text \<open>
  \<^verbatim>\<open>OTPService.send_request\<close>. The argument \<open>post\<close> is what \<^verbatim>\<open>client.post\<close> does:
  raise an exception or return a response. The three \<^verbatim>\<open>except\<close> clauses are tried
  in the order of the source; the string an exception carries is its \<^verbatim>\<open>str(e)\<close>.
\<close>

definition send_request :: "service \<Rightarrow> py_exception + response \<Rightarrow> ServiceResponse" where
  "send_request svc post =
     (case (case post of
              Inl e \<Rightarrow> Inl e
            | Inr resp \<Rightarrow>
                (case parse_response resp of
                   Inl e \<Rightarrow> Inl e
                 | Inr data \<Rightarrow>
                     Inr (new_ServiceResponse (name svc) (Some (resp_status_code resp))
                            (Some data) None))) of
        Inr r \<Rightarrow> r
      | Inl (TimeoutException msg) \<Rightarrow>
          new_ServiceResponse (name svc) None None (Some ''Request timed out'')
      | Inl (RequestError msg) \<Rightarrow>
          new_ServiceResponse (name svc) None None (Some (''Request failed: '' @ msg))
      | Inl (OtherException msg) \<Rightarrow>
          new_ServiceResponse (name svc) None None (Some msg))"

section \<open>\<^verbatim>\<open>TaskManager\<close>\<close>

text \<open>
  The state a \<^verbatim>\<open>TaskManager\<close> works on: the Redis store, the \<^verbatim>\<open>threading.Event\<close>
  objects (a heap: address to flag; \<open>next_event\<close> is the next free address) and the
  registry \<^verbatim>\<open>active_tasks\<close> from task id to the address of its event.
\<close>

record manager =
  redis :: redis_db
  events :: "nat \<Rightarrow> bool"
  next_event :: nat
  active_tasks :: "string \<rightharpoonup> nat"

definition new_manager :: manager where
  "new_manager = \<lparr>redis = empty_db, events = (\<lambda>a. False), next_event = 0,
                   active_tasks = Map.empty\<rparr>"

text \<open>The dicts the control operations return.\<close>

datatype reply =
    Started string string int
  | Not_found string
  | Not_running string pyval
  | Stopped string
  | Cannot_delete_running
  | Deleted string

text \<open>The spec's names for the two error replies.\<close>

fun is_NotFound :: "reply \<Rightarrow> bool" where
  "is_NotFound (Not_found t) = True"
| "is_NotFound r = False"

fun is_InvalidState :: "reply \<Rightarrow> bool" where
  "is_InvalidState (Not_running t s) = True"
| "is_InvalidState Cannot_delete_running = True"
| "is_InvalidState r = False"

text \<open>\<^verbatim>\<open>generate_task_id\<close>; \<open>uid\<close> is \<^verbatim>\<open>uuid.uuid4().hex\<close>.\<close>

definition generate_task_id :: "string \<Rightarrow> string" where
  "generate_task_id uid = ''taskid-'' @ take 4 uid @ ''-'' @ take 4 (drop 4 uid)"

text \<open>
  A thread running \<^verbatim>\<open>_run_task\<close>: its arguments, its local variables and where it
  stands. \<open>Created\<close>: started, no statement run yet. \<open>While_test\<close>: at the test of the
  \<^verbatim>\<open>while\<close>. \<open>For_test ss\<close>: at the head of the \<^verbatim>\<open>for\<close>, the services \<open>ss\<close> still to
  come. \<open>Finished\<close>: returned.
\<close>

datatype pc = Created | While_test | For_test "service list" | Finished

record runner =
  r_task_id :: string
  r_phone_number :: string
  r_interval :: int
  r_stop_event :: nat
  r_pc :: pc
  r_iteration :: int
  r_services_stats :: stats
  r_total_requests :: int
  r_successful :: int
  r_failed :: int

text \<open>\<^verbatim>\<open>TaskManager.start_task\<close>: the reply, the new state and the thread it starts.\<close>

definition start_task ::
  "string \<Rightarrow> string \<Rightarrow> int \<Rightarrow> string \<Rightarrow> manager \<Rightarrow> reply \<times> manager \<times> runner" where
  "start_task uid phone_number interval now m =
     (let task_id = generate_task_id uid;
          (task_data, db) = create_task task_id phone_number interval now (redis m);
          stop_event = next_event m;
          m1 = m\<lparr>redis := db,
                 events := (events m)(stop_event := False),
                 next_event := Suc stop_event,
                 active_tasks := (active_tasks m)(task_id \<mapsto> stop_event)\<rparr>;
          thread = \<lparr>r_task_id = task_id, r_phone_number = phone_number,
                    r_interval = interval, r_stop_event = stop_event, r_pc = Created,
                    r_iteration = 0, r_services_stats = [], r_total_requests = 0,
                    r_successful = 0, r_failed = 0\<rparr>
      in (Started task_id phone_number interval, m1, thread))"

text \<open>
  \<^verbatim>\<open>TaskManager.stop_task\<close>. \<open>Inl\<close> is an exception that leaves the method:
  one of \<^verbatim>\<open>get_task\<close>, or the \<^verbatim>\<open>KeyError\<close> of \<^verbatim>\<open>task["status"]\<close>. The calls of the
  control plane are taken to reach the store.
\<close>

definition stop_task :: "string \<Rightarrow> string \<Rightarrow> manager \<Rightarrow> (py_error + reply) \<times> manager" where
  "stop_task task_id now m =
     (case get_task (redis m) task_id of
        Inl e \<Rightarrow> (Inl e, m)
      | Inr None \<Rightarrow> (Inr (Not_found task_id), m)
      | Inr (Some task) \<Rightarrow>
          (case task ''status'' of
             None \<Rightarrow> (Inl KeyError, m)
           | Some st \<Rightarrow>
               if st \<noteq> PStr (status_value RUNNING) then (Inr (Not_running task_id st), m)
               else
                 let m1 = (case active_tasks m task_id of
                             None \<Rightarrow> m
                           | Some stop_event \<Rightarrow>
                               m\<lparr>events := (events m)(stop_event := True),
                                 active_tasks := (active_tasks m)(task_id := None)\<rparr>);
                     m2 = m1\<lparr>redis := update_task task_id
                                 [(''status'', PStr (status_value STOPPED)),
                                  (''stopped_at'', PStr now)] (redis m1)\<rparr>
                 in (Inr (Stopped task_id), m2)))"

text \<open>\<^verbatim>\<open>TaskManager.delete_task\<close>.\<close>

definition delete_task :: "string \<Rightarrow> manager \<Rightarrow> (py_error + reply) \<times> manager" where
  "delete_task task_id m =
     (case get_task (redis m) task_id of
        Inl e \<Rightarrow> (Inl e, m)
      | Inr None \<Rightarrow> (Inr (Not_found task_id), m)
      | Inr (Some task) \<Rightarrow>
          (case task ''status'' of
             None \<Rightarrow> (Inl KeyError, m)
           | Some st \<Rightarrow>
               if st = PStr (status_value RUNNING) then (Inr Cannot_delete_running, m)
               else (Inr (Deleted task_id),
                     m\<lparr>redis := snd (redis_delete_task task_id (redis m))\<rparr>)))"

section \<open>The background runner \<^verbatim>\<open>_run_task\<close>\<close>

text \<open>
  What the world supplies to one step of a thread: the timestamp
  \<^verbatim>\<open>datetime.now().isoformat()\<close>; what \<^verbatim>\<open>client.post\<close> does; whether a statement of
  the \<^verbatim>\<open>try\<close> block other than \<^verbatim>\<open>send_request\<close> raises in this step (the store is
  unreachable, \<^verbatim>\<open>httpx.Client\<close> cannot be built) and the \<^verbatim>\<open>str(e)\<close> of the exception
  the handler then catches; whether the write before the \<^verbatim>\<open>try\<close> raises; whether the
  write of the handler itself raises.
\<close>

record step_input =
  in_now :: string
  in_post :: "py_exception + response"
  in_fault :: bool
  in_str_e :: string
  in_start_fault :: bool
  in_handler_fault :: bool

text \<open>The dict comprehension that builds \<^verbatim>\<open>services_stats\<close>.\<close>

definition initial_services_stats :: stats where
  "initial_services_stats = map (\<lambda>s. (name s, \<lparr>n_success = 0, n_failed = 0\<rparr>)) SERVICES"

text \<open>
  \<^verbatim>\<open>services_stats[nm]["success"] += 1\<close> and the same for \<^verbatim>\<open>"failed"\<close>. Every
  service name is a key of the dict from its construction on, so the lookup does not
  raise.
\<close>

definition incr_success :: "string \<Rightarrow> stats \<Rightarrow> stats" where
  "incr_success nm st =
     map (\<lambda>(k, c). if k = nm then (k, c\<lparr>n_success := n_success c + 1\<rparr>) else (k, c)) st"

definition incr_failed :: "string \<Rightarrow> stats \<Rightarrow> stats" where
  "incr_failed nm st =
     map (\<lambda>(k, c). if k = nm then (k, c\<lparr>n_failed := n_failed c + 1\<rparr>) else (k, c)) st"

text \<open>\<^verbatim>\<open>task.get(k, d)\<close> for a field that \<^verbatim>\<open>get_task\<close> parses as an integer: the task
  has an \<^verbatim>\<open>int\<close> there or nothing (\<open>int_field_parsed\<close> below).\<close>

definition task_get_int :: "task \<Rightarrow> string \<Rightarrow> int \<Rightarrow> int" where
  "task_get_int t k d = (case t k of Some (PInt n) \<Rightarrow> n | _ \<Rightarrow> d)"

text \<open>The \<^verbatim>\<open>finally\<close> clause.\<close>

definition deregister :: "string \<Rightarrow> manager \<Rightarrow> manager" where
  "deregister task_id m =
     (if task_id \<in> dom (active_tasks m)
      then m\<lparr>active_tasks := (active_tasks m)(task_id := None)\<rparr> else m)"

definition error_updates :: "string \<Rightarrow> string \<Rightarrow> (string \<times> pyval) list" where
  "error_updates now str_e =
     [(''status'', PStr (status_value ERROR)),
      (''stopped_at'', PStr now),
      (''last_activity'', PStr (''Error: '' @ str_e))]"

text \<open>The \<^verbatim>\<open>except Exception\<close> clause followed by the \<^verbatim>\<open>finally\<close> clause. When the
  write of the handler raises, nothing is written; the \<^verbatim>\<open>finally\<close> clause runs all the
  same and the thread ends.\<close>

definition on_exception :: "step_input \<Rightarrow> runner \<Rightarrow> manager \<Rightarrow> runner \<times> manager" where
  "on_exception inp r m =
     (r\<lparr>r_pc := Finished\<rparr>,
      deregister (r_task_id r)
        (if in_handler_fault inp then m
         else m\<lparr>redis := update_task (r_task_id r)
                             (error_updates (in_now inp) (in_str_e inp)) (redis m)\<rparr>))"

definition progress_updates ::
  "int \<Rightarrow> task \<Rightarrow> ServiceResponse \<Rightarrow> string \<Rightarrow> stats \<Rightarrow> (string \<times> pyval) list" where
  "progress_updates iteration task resp now services_stats =
     [(''iterations'', PInt iteration),
      (''total_requests'', PInt (task_get_int task ''total_requests'' 0 + 1)),
      (''successful_requests'',
         PInt (task_get_int task ''successful_requests'' 0 + (if success resp then 1 else 0))),
      (''failed_requests'',
         PInt (task_get_int task ''failed_requests'' 0 + (if success resp then 0 else 1))),
      (''last_activity'', PStr now),
      (''services_stats'', PDict services_stats)]"

text \<open>
  The body of the \<^verbatim>\<open>for\<close> loop for one service, after the test of the event: the
  request, the local counters, the read and the merge-update of the record, and the
  wait, which changes nothing. A fault of the store arises in \<^verbatim>\<open>get_task\<close> or in
  \<^verbatim>\<open>update_task\<close>, after the local counters have grown, and the write does not take
  place.
\<close>

definition run_service ::
  "step_input \<Rightarrow> service \<Rightarrow> service list \<Rightarrow> runner \<Rightarrow> manager \<Rightarrow> runner \<times> manager" where
  "run_service inp svc rest r m =
     (let resp = send_request svc (in_post inp);
          r1 = r\<lparr>r_total_requests := r_total_requests r + 1\<rparr>;
          r2 = (if success resp
                then r1\<lparr>r_successful := r_successful r1 + 1,
                        r_services_stats := incr_success (name svc) (r_services_stats r1)\<rparr>
                else r1\<lparr>r_failed := r_failed r1 + 1,
                        r_services_stats := incr_failed (name svc) (r_services_stats r1)\<rparr>)
      in if in_fault inp then on_exception inp r2 m
         else
           (case get_task (redis m) (r_task_id r) of
              Inl e \<Rightarrow> on_exception inp r2 m
            | Inr None \<Rightarrow> (r2\<lparr>r_pc := For_test rest\<rparr>, m)
            | Inr (Some task) \<Rightarrow>
                (r2\<lparr>r_pc := For_test rest\<rparr>,
                 m\<lparr>redis := update_task (r_task_id r)
                      (progress_updates (r_iteration r2) task resp (in_now inp)
                         (r_services_stats r2)) (redis m)\<rparr>)))"

text \<open>
  One step of a thread. The first write (\<^verbatim>\<open>status = running\<close>) stands before the
  \<^verbatim>\<open>try\<close>: when it raises, the thread ends there, with neither handler nor
  \<^verbatim>\<open>finally\<close> clause. A fault inside the \<^verbatim>\<open>try\<close> in the first step is one of building
  the HTTP client.
\<close>

definition runner_step :: "step_input \<Rightarrow> runner \<Rightarrow> manager \<Rightarrow> runner \<times> manager" where
  "runner_step inp r m =
     (case r_pc r of
        Created \<Rightarrow>
          if in_start_fault inp then (r\<lparr>r_pc := Finished\<rparr>, m)
          else
            (let m1 = m\<lparr>redis := update_task (r_task_id r)
                          [(''status'', PStr (status_value RUNNING)),
                           (''started_at'', PStr (in_now inp))] (redis m)\<rparr>;
                 r1 = r\<lparr>r_iteration := 0, r_services_stats := initial_services_stats\<rparr>
             in if in_fault inp then on_exception inp r1 m1
                else (r1\<lparr>r_pc := While_test\<rparr>, m1))
      | While_test \<Rightarrow>
          if events m (r_stop_event r)
          then (r\<lparr>r_pc := Finished\<rparr>, deregister (r_task_id r) m)
          else (r\<lparr>r_iteration := r_iteration r + 1, r_total_requests := 0,
                  r_successful := 0, r_failed := 0, r_pc := For_test SERVICES\<rparr>, m)
      | For_test [] \<Rightarrow> (r\<lparr>r_pc := While_test\<rparr>, m)
      | For_test (svc # rest) \<Rightarrow>
          if events m (r_stop_event r) then (r\<lparr>r_pc := While_test\<rparr>, m)
          else run_service inp svc rest r m
      | Finished \<Rightarrow> (r, m))"

section \<open>The whole system\<close>

text \<open>
  A manager and the threads it has started. A command is one call of the control plane,
  one step of one thread, or the passing of time in the store; commands interleave in
  any order, each one atomic.
\<close>

record system =
  mgr :: manager
  threads :: "runner list"

datatype command =
    Start_task string string int string
  | Stop_task string string
  | Delete_task string
  | Elapse nat
  | Thread_step nat step_input

definition initial_system :: system where
  "initial_system = \<lparr>mgr = new_manager, threads = []\<rparr>"

fun sys_step :: "command \<Rightarrow> system \<Rightarrow> system" where
  "sys_step (Start_task uid phone_number interval now) s =
     (case start_task uid phone_number interval now (mgr s) of
        (rep, m1, thread) \<Rightarrow> \<lparr>mgr = m1, threads = threads s @ [thread]\<rparr>)"
| "sys_step (Stop_task task_id now) s = s\<lparr>mgr := snd (stop_task task_id now (mgr s))\<rparr>"
| "sys_step (Delete_task task_id) s = s\<lparr>mgr := snd (delete_task task_id (mgr s))\<rparr>"
| "sys_step (Elapse d) s = s\<lparr>mgr := (mgr s)\<lparr>redis := elapse d (redis (mgr s))\<rparr>\<rparr>"
| "sys_step (Thread_step i inp) s =
     (if i < length (threads s)
      then (case runner_step inp (threads s ! i) (mgr s) of
              (r1, m1) \<Rightarrow> \<lparr>mgr = m1, threads = (threads s)[i := r1]\<rparr>)
      else s)"

definition run :: "command list \<Rightarrow> system \<Rightarrow> system" where
  "run cs s = fold sys_step cs s"

section \<open>Properties of a task record\<close>

text \<open>\<^verbatim>\<open>task.get("services_stats", {})\<close>.\<close>

definition task_get_stats :: "task \<Rightarrow> stats" where
  "task_get_stats t = (case t ''services_stats'' of Some (PDict d) \<Rightarrow> d | _ \<Rightarrow> [])"

definition sum_success :: "stats \<Rightarrow> int" where
  "sum_success st = sum_list (map (\<lambda>(k, c). n_success c) st)"

definition sum_failed :: "stats \<Rightarrow> int" where
  "sum_failed st = sum_list (map (\<lambda>(k, c). n_failed c) st)"

text \<open>The counters of a task agree with each other and with its per-service entries.\<close>

definition counters_consistent :: "task \<Rightarrow> bool" where
  "counters_consistent t =
     (task_get_int t ''total_requests'' 0 =
        task_get_int t ''successful_requests'' 0 + task_get_int t ''failed_requests'' 0 \<and>
      sum_success (task_get_stats t) = task_get_int t ''successful_requests'' 0 \<and>
      sum_failed (task_get_stats t) = task_get_int t ''failed_requests'' 0)"

text \<open>Every \<^verbatim>\<open>start_task\<close> of a run generates an id that no earlier thread has.\<close>

fun fresh_ids :: "command list \<Rightarrow> system \<Rightarrow> bool" where
  "fresh_ids [] s = True"
| "fresh_ids (c # cs) s =
     ((case c of
         Start_task uid phone_number interval now \<Rightarrow>
           generate_task_id uid \<notin> set (map r_task_id (threads s))
       | _ \<Rightarrow> True) \<and>
      fresh_ids cs (sys_step c s))"






text \<open>Every stored record has a \<open>status\<close> field.\<close>

definition statuses_ok :: "redis_db \<Rightarrow> bool" where
  "statuses_ok db = (\<forall>k h. hashes db k = Some h \<longrightarrow> h ''status'' \<noteq> None)"



section \<open>A scenario\<close>

text \<open>
  The scenario of the specification: a task for the target \<^verbatim>\<open>5550100000\<close> with an
  interval of ten seconds, started on a new manager. \<open>reply_500\<close> is an HTTP 500 with
  an HTML body, \<open>step_ok\<close> a step in which the request gets this response,
  \<open>step_timeout\<close> one in which \<^verbatim>\<open>client.post\<close> raises, \<open>step_fault\<close> one in which the
  store is unreachable.
\<close>

definition demo_uid :: string where
  "demo_uid = ''0123456789abcdef0123456789abcdef''"

definition demo_id :: string where
  "demo_id = ''taskid-0123-4567''"

definition reply_500 :: response where
  "reply_500 = \<lparr>resp_status_code = 500, resp_content_type = ''text/html'',
                 resp_text = ''Internal Server Error'',
                 resp_json = Inl (OtherException ''Expecting value'')\<rparr>"

definition step_ok :: step_input where
  "step_ok = \<lparr>in_now = ''2026-01-01T00:00:01'', in_post = Inr reply_500,
               in_fault = False, in_str_e = '''',
               in_start_fault = False, in_handler_fault = False\<rparr>"

definition step_timeout :: step_input where
  "step_timeout = \<lparr>in_now = ''2026-01-01T00:00:02'',
                    in_post = Inl (TimeoutException ''timed out''),
                    in_fault = False, in_str_e = '''',
                    in_start_fault = False, in_handler_fault = False\<rparr>"

definition step_fault :: step_input where
  "step_fault = \<lparr>in_now = ''2026-01-01T00:00:03'', in_post = Inr reply_500,
                  in_fault = True, in_str_e = ''Connection refused'',
                  in_start_fault = False, in_handler_fault = False\<rparr>"

definition demo_start :: command where
  "demo_start = Start_task demo_uid ''5550100000'' 10 ''2026-01-01T00:00:00''"

text \<open>The states after \<^verbatim>\<open>start_task\<close>, after the thread's first write, and at the head
  of the first pass.\<close>

definition demo_created :: system where
  "demo_created = run [demo_start] initial_system"

definition demo_running :: system where
  "demo_running = run [demo_start, Thread_step 0 step_ok] initial_system"

definition demo_pass :: system where
  "demo_pass = run [demo_start, Thread_step 0 step_ok, Thread_step 0 step_ok] initial_system"

text \<open>The scenario goes on: the first service of the pass is run, then \<^verbatim>\<open>stop_task\<close>
  is called, before the second service starts.\<close>

definition demo_stopped :: system where
  "demo_stopped =
     run [demo_start, Thread_step 0 step_ok, Thread_step 0 step_ok, Thread_step 0 step_ok,
          Stop_task demo_id ''2026-01-01T00:00:05''] initial_system"


section \<open>Exceptions of a step\<close>

text \<open>
  An exception reaches the \<^verbatim>\<open>except\<close> clause of \<^verbatim>\<open>_run_task\<close> in this step: a fault
  while the HTTP client is built, the first write done, or, in the body of the \<^verbatim>\<open>for\<close>
  loop, a fault of the store or an exception of \<^verbatim>\<open>get_task\<close>.
\<close>

definition raises :: "step_input \<Rightarrow> runner \<Rightarrow> manager \<Rightarrow> bool" where
  "raises inp r m =
     (case r_pc r of
        Created \<Rightarrow> \<not> in_start_fault inp \<and> in_fault inp
      | For_test ss \<Rightarrow>
          ss \<noteq> [] \<and> \<not> events m (r_stop_event r) \<and>
          (in_fault inp \<or> isl (get_task (redis m) (r_task_id r)))
      | _ \<Rightarrow> False)"

section \<open>Decimal numerals\<close>

lemma is_digit_digit_char: "d < 10 \<Longrightarrow> is_digit (digit_char d)"
  by (simp add: is_digit_def digit_char_def)

lemma digit_val_digit_char: "d < 10 \<Longrightarrow> digit_val (digit_char d) = d"
  by (simp add: digit_val_def digit_char_def)

lemma str_nat_digits: "list_all is_digit (str_nat n)"
  by (induction n rule: str_nat.induct) (subst str_nat.simps, simp add: is_digit_digit_char)

lemma str_nat_nonempty: "str_nat n \<noteq> []"
  by (subst str_nat.simps) simp

lemma str_nat_value: "foldl (\<lambda>a c. 10 * a + digit_val c) 0 (str_nat n) = n"
  by (induction n rule: str_nat.induct) (subst str_nat.simps, simp add: digit_val_digit_char)

lemma nat_of_str_str_nat: "nat_of_str (str_nat n) = Some n"
  by (simp add: nat_of_str_def str_nat_digits str_nat_nonempty str_nat_value)

lemma hd_str_nat_not_minus: "hd (str_nat n) \<noteq> CHR ''-''"
  using str_nat_digits [of n] str_nat_nonempty [of n]
  by (cases "str_nat n") (auto simp: is_digit_def)

text \<open>\<^verbatim>\<open>int(str(i)) == i\<close>.\<close>

lemma int_of_str_str_int: "int_of_str (str_int i) = Some i"
proof (cases "i < 0")
  case True
  then show ?thesis by (simp add: int_of_str_def str_int_def nat_of_str_str_nat)
next
  case False
  obtain c cs where cs: "str_nat (nat i) = c # cs"
    using str_nat_nonempty [of "nat i"] by (cases "str_nat (nat i)") auto
  have "c \<noteq> CHR ''-''" using hd_str_nat_not_minus [of "nat i"] cs by simp
  moreover have "nat_of_str (c # cs) = Some (nat i)"
    using nat_of_str_str_nat [of "nat i"] cs by simp
  ultimately show ?thesis using False cs by (simp add: int_of_str_def str_int_def)
qed

lemma str_int_nonempty: "str_int i \<noteq> []"
  by (simp add: str_int_def str_nat_nonempty)

section \<open>The store under a merge-update\<close>


lemma hgetall_update_task:
  "hgetall k (update_task tid ups db) =
     (if k = get_key tid then hgetall k db ++ map_of (redis_data ups) else hgetall k db)"
  by (simp add: hgetall_def update_task_def hset_def)

lemma ttl_update_task: "ttl (update_task tid ups db) = ttl db"
  by (simp add: update_task_def hset_def)

lemma hashes_update_task:
  "hashes (update_task tid ups db) =
     (hashes db)(get_key tid \<mapsto> hgetall (get_key tid) db ++ map_of (redis_data ups))"
  by (simp add: hgetall_def update_task_def hset_def)

lemma parsed_add:
  "parsed (h ++ g) k = (case g k of None \<Rightarrow> parsed h k | Some v \<Rightarrow> parsed g k)"
  by (simp add: parsed_def map_add_def split: option.splits)

lemma parse_value_int:
  "k \<in> set int_fields \<Longrightarrow> parse_value k (Str (str_int n)) = Inr (PInt n)"
  by (auto simp add: parse_value_def int_fields_def int_of_str_str_int str_int_nonempty)

lemma int_field_parsed:
  assumes "get_task db tid = Inr (Some t)" and "k \<in> set int_fields"
  shows "t k = None \<or> (\<exists>n. t k = Some (PInt n))"
  using assms
  by (auto simp add: get_task_def parse_task_def parsed_def parse_value_def int_fields_def
        split: if_splits option.splits hval.splits sum.splits)

lemma parse_fails_add: "parse_fails (h ++ g) \<Longrightarrow> parse_fails h \<or> parse_fails g"
  unfolding parse_fails_def map_add_def by (auto split: option.splits)

lemma parse_fails_empty [simp]: "\<not> parse_fails Map.empty"
  by (simp add: parse_fails_def)

lemma parsed_empty [simp]: "parsed Map.empty = Map.empty"
  by (simp add: parsed_def)

lemma get_task_cases:
  "get_task db tid =
     (let h = hgetall (get_key tid) db in
      if h = Map.empty then Inr None else if parse_fails h then Inl ValueError
      else Inr (Some (parsed h)))"
  by (simp add: get_task_def parse_task_def Let_def)


text \<open>Reading a record back after a merge-update whose values parse.\<close>

lemma get_task_update:
  assumes "\<not> isl (get_task db tid)" "\<not> parse_fails (map_of (redis_data ups))" "ups \<noteq> []"
  shows "get_task (update_task tid ups db) tid =
           Inr (Some (parsed (hgetall (get_key tid) db ++ map_of (redis_data ups))))"
proof -
  let ?h = "hgetall (get_key tid) db" and ?g = "map_of (redis_data ups)"
  have "\<not> parse_fails ?h"
    using assms(1) by (auto simp add: get_task_cases Let_def split: if_splits)
  then have "\<not> parse_fails (?h ++ ?g)" using assms(2) parse_fails_add by blast
  moreover have "redis_data ups \<noteq> []" using assms(3) by (simp add: redis_data_def)
  ultimately show ?thesis by (simp add: get_task_cases hgetall_update_task Let_def)
qed



lemma stop_clean: "\<not> parse_fails (map_of (redis_data [(''status'', a), (''stopped_at'', b)]))"
  by (simp add: parse_fails_def redis_data_def int_fields_def)



lemma initial_clean: "\<not> parse_fails (map_of (redis_data (initial_task_data tid p i now)))"
  by (simp add: parse_fails_def redis_data_def initial_task_data_def parse_value_int
      int_fields_def parse_value_def int_of_str_str_int str_int_nonempty)

section \<open>Classification of a request\<close>

lemma success_new [simp]: "success (new_ServiceResponse n sc rd err) = (err = None)"
  by (simp add: new_ServiceResponse_def)

lemma error_new [simp]: "error (new_ServiceResponse n sc rd err) = err"
  by (simp add: new_ServiceResponse_def)






section \<open>One pass through the body of the loop\<close>

lemma on_exception_simps [simp]:
  "r_pc (fst (on_exception inp r m)) = Finished"
  "r_services_stats (fst (on_exception inp r m)) = r_services_stats r"
  "r_total_requests (fst (on_exception inp r m)) = r_total_requests r"
  "r_successful (fst (on_exception inp r m)) = r_successful r"
  "r_failed (fst (on_exception inp r m)) = r_failed r"
  "r_iteration (fst (on_exception inp r m)) = r_iteration r"
  "r_task_id (fst (on_exception inp r m)) = r_task_id r"
  "r_stop_event (fst (on_exception inp r m)) = r_stop_event r"
  by (simp_all add: on_exception_def)

lemma deregister_simps [simp]:
  "redis (deregister tid m) = redis m"
  "events (deregister tid m) = events m"
  "next_event (deregister tid m) = next_event m"
  "active_tasks (deregister tid m) = (active_tasks m)(tid := None)"
  by (auto simp add: deregister_def fun_upd_idem_iff)

lemma on_exception_mgr [simp]:
  "redis (snd (on_exception inp r m)) =
     (if in_handler_fault inp then redis m
      else update_task (r_task_id r) (error_updates (in_now inp) (in_str_e inp)) (redis m))"
  "events (snd (on_exception inp r m)) = events m"
  "next_event (snd (on_exception inp r m)) = next_event m"
  "active_tasks (snd (on_exception inp r m)) = (active_tasks m)(r_task_id r := None)"
  by (simp_all add: on_exception_def)

lemma run_service_locals:
  "r_services_stats (fst (run_service inp svc rest r m)) =
     (if success (send_request svc (in_post inp))
      then incr_success (name svc) (r_services_stats r)
      else incr_failed (name svc) (r_services_stats r))"
  "r_successful (fst (run_service inp svc rest r m)) =
     r_successful r + (if success (send_request svc (in_post inp)) then 1 else 0)"
  "r_failed (fst (run_service inp svc rest r m)) =
     r_failed r + (if success (send_request svc (in_post inp)) then 0 else 1)"
  "r_total_requests (fst (run_service inp svc rest r m)) = r_total_requests r + 1"
  "r_iteration (fst (run_service inp svc rest r m)) = r_iteration r"
  "r_task_id (fst (run_service inp svc rest r m)) = r_task_id r"
  "r_stop_event (fst (run_service inp svc rest r m)) = r_stop_event r"
  by (simp_all add: run_service_def Let_def split: sum.splits option.splits)

lemma run_service_written:
  assumes "\<not> in_fault inp" "get_task (redis m) (r_task_id r) = Inr (Some task)"
  shows "r_pc (fst (run_service inp svc rest r m)) = For_test rest"
    and "redis (snd (run_service inp svc rest r m)) =
           update_task (r_task_id r)
             (progress_updates (r_iteration r) task (send_request svc (in_post inp)) (in_now inp)
                (r_services_stats (fst (run_service inp svc rest r m)))) (redis m)"
    and "events (snd (run_service inp svc rest r m)) = events m"
    and "active_tasks (snd (run_service inp svc rest r m)) = active_tasks m"
  using assms by (simp_all add: run_service_def Let_def)

lemma run_service_absent:
  assumes "\<not> in_fault inp" "get_task (redis m) (r_task_id r) = Inr None"
  shows "r_pc (fst (run_service inp svc rest r m)) = For_test rest"
    and "snd (run_service inp svc rest r m) = m"
  using assms by (simp_all add: run_service_def Let_def)

lemma run_service_raised:
  assumes "in_fault inp \<or> isl (get_task (redis m) (r_task_id r))"
  shows "r_pc (fst (run_service inp svc rest r m)) = Finished"
    and "redis (snd (run_service inp svc rest r m)) =
           (if in_handler_fault inp then redis m
            else update_task (r_task_id r) (error_updates (in_now inp) (in_str_e inp))
                   (redis m))"
    and "events (snd (run_service inp svc rest r m)) = events m"
    and "active_tasks (snd (run_service inp svc rest r m)) = (active_tasks m)(r_task_id r := None)"
  using assms by (auto simp add: run_service_def Let_def split: sum.splits)



section \<open>Evaluation of the scenario\<close>


lemmas eval_defs = run_def initial_system_def new_manager_def empty_db_def start_task_def
  create_task_def generate_task_id_def hset_def expire_def get_key_def task_prefix_def
  redis_data_def initial_task_data_def runner_step_def update_task_def Let_def
  SERVICES_def initial_services_stats_def demo_uid_def demo_id_def reply_500_def
  step_ok_def step_timeout_def step_fault_def demo_start_def

lemmas read_defs = task_field_def get_task_def parse_task_def hgetall_def parse_fails_def
  parsed_def parse_value_def int_fields_def int_of_str_str_int str_int_nonempty

lemma demo_pass_thread:
  "threads demo_pass ! 0 =
     \<lparr>r_task_id = demo_id, r_phone_number = ''5550100000'', r_interval = 10,
      r_stop_event = 0, r_pc = For_test SERVICES, r_iteration = 1,
      r_services_stats = initial_services_stats,
      r_total_requests = 0, r_successful = 0, r_failed = 0\<rparr>"
  by (simp add: demo_pass_def eval_defs)



section \<open>What counts as a success\<close>



section \<open>An action that raises\<close>



lemma runner_step_For_test:
  "r_pc r = For_test (svc # rest) \<Longrightarrow> \<not> events m (r_stop_event r) \<Longrightarrow>
   runner_step inp r m = run_service inp svc rest r m"
  by (simp add: runner_step_def)



section \<open>The record that \<^verbatim>\<open>start_task\<close> writes\<close>

lemma hgetall_create_task:
  "hgetall (get_key tid) (snd (create_task tid p i now db)) =
     hgetall (get_key tid) db ++ map_of (redis_data (initial_task_data tid p i now))"
  by (simp add: create_task_def Let_def hset_def expire_def hgetall_def)

lemma get_task_create_task:
  "get_task (snd (create_task tid p i now db)) tid =
     Inr (Some (parsed (hgetall (get_key tid) db ++
                         map_of (redis_data (initial_task_data tid p i now)))))"
  unfolding get_task_cases hgetall_create_task Let_def
  by (simp add: redis_data_def initial_task_data_def parse_fails_def parse_value_def
        int_fields_def int_of_str_str_int str_int_nonempty)

lemma task_field_create_task:
  "task_field (snd (create_task tid p i now db)) tid ''status'' = Some (PStr ''pending'')"
  "task_field (snd (create_task tid p i now db)) tid ''iterations'' = Some (PInt 0)"
  "task_field (snd (create_task tid p i now db)) tid ''total_requests'' = Some (PInt 0)"
  "task_field (snd (create_task tid p i now db)) tid ''successful_requests'' = Some (PInt 0)"
  "task_field (snd (create_task tid p i now db)) tid ''failed_requests'' = Some (PInt 0)"
  "task_field (snd (create_task tid p i now db)) tid ''services_stats'' = Some (PDict [])"
  "task_field (snd (create_task tid p i now db)) tid ''interval'' = Some (PInt i)"
  "task_field (snd (create_task tid p i now db)) tid ''started_at'' = Some PNone"
  "task_field (snd (create_task tid p i now db)) tid ''stopped_at'' = Some PNone"
  unfolding task_field_def get_task_create_task
  by (simp_all add: parsed_def redis_data_def initial_task_data_def parse_value_def
        int_fields_def int_of_str_str_int str_int_nonempty)

lemma start_task_redis:
  "redis (fst (snd (start_task uid p i now m))) =
     snd (create_task (generate_task_id uid) p i now (redis m))"
  by (simp add: start_task_def Let_def split: prod.splits)

lemma start_task_thread:
  "snd (snd (start_task uid p i now m)) =
     \<lparr>r_task_id = generate_task_id uid, r_phone_number = p, r_interval = i,
      r_stop_event = next_event m, r_pc = Created, r_iteration = 0, r_services_stats = [],
      r_total_requests = 0, r_successful = 0, r_failed = 0\<rparr>"
  by (simp add: start_task_def Let_def split: prod.splits)

lemma start_task_mgr:
  "events (fst (snd (start_task uid p i now m))) = (events m)(next_event m := False)"
  "next_event (fst (snd (start_task uid p i now m))) = Suc (next_event m)"
  "active_tasks (fst (snd (start_task uid p i now m))) =
     (active_tasks m)(generate_task_id uid \<mapsto> next_event m)"
  by (simp_all add: start_task_def Let_def split: prod.splits)

lemma runner_step_Created_stats:
  "r_pc r = Created \<Longrightarrow> \<not> in_start_fault inp \<Longrightarrow>
   r_services_stats (fst (runner_step inp r m)) = initial_services_stats"
  by (simp add: runner_step_def Let_def)

lemma initial_services_stats_eq:
  "initial_services_stats =
     [(''Hungama'', \<lparr>n_success = 0, n_failed = 0\<rparr>),
      (''ShemarooMe'', \<lparr>n_success = 0, n_failed = 0\<rparr>),
      (''Unacademy'', \<lparr>n_success = 0, n_failed = 0\<rparr>)]"
  by (simp add: initial_services_stats_def SERVICES_def)

text \<open>
  C3, as stated, fails: the record that \<^verbatim>\<open>start_task\<close> writes has the empty dict under
  \<^verbatim>\<open>services_stats\<close>, not one zero entry for each of the three services.
\<close>

theorem create_stats_counterexample:
  "task_field (redis (fst (snd (start_task demo_uid ''5550100000'' 10 ''2026-01-01T00:00:00''
       new_manager)))) demo_id ''services_stats'' = Some (PDict []) \<and>
   task_field (redis (fst (snd (start_task demo_uid ''5550100000'' 10 ''2026-01-01T00:00:00''
       new_manager)))) demo_id ''services_stats'' \<noteq>
     Some (PDict [(''Hungama'', \<lparr>n_success = 0, n_failed = 0\<rparr>),
                  (''ShemarooMe'', \<lparr>n_success = 0, n_failed = 0\<rparr>),
                  (''Unacademy'', \<lparr>n_success = 0, n_failed = 0\<rparr>)])"
proof -
  have "generate_task_id demo_uid = demo_id"
    by (simp add: generate_task_id_def demo_uid_def demo_id_def)
  then show ?thesis
    using task_field_create_task(6) [of demo_id "''5550100000''" 10 "''2026-01-01T00:00:00''"
        "redis new_manager"]
    by (simp add: start_task_redis)
qed

text \<open>
  C3, amended. \<^verbatim>\<open>start_task\<close> writes a record whose status is \<^verbatim>\<open>pending\<close>, whose
  counters \<open>iterations\<close>, \<open>total_requests\<close>, \<open>successful_requests\<close> and \<open>failed_requests\<close>
  are zero and whose \<^verbatim>\<open>services_stats\<close> is the empty dict. The dict with one zero entry
  for each of the three services is built by the thread, in its own memory, in its
  first step (when the write that precedes it does not fail).
\<close>

theorem create_initial_record:
  "task_field (redis (fst (snd (start_task uid p i now m)))) (generate_task_id uid) ''status'' =
     Some (PStr (status_value PENDING)) \<and>
   task_field (redis (fst (snd (start_task uid p i now m)))) (generate_task_id uid) ''iterations'' =
     Some (PInt 0) \<and>
   task_field (redis (fst (snd (start_task uid p i now m)))) (generate_task_id uid) ''total_requests'' =
     Some (PInt 0) \<and>
   task_field (redis (fst (snd (start_task uid p i now m)))) (generate_task_id uid)
     ''successful_requests'' = Some (PInt 0) \<and>
   task_field (redis (fst (snd (start_task uid p i now m)))) (generate_task_id uid)
     ''failed_requests'' = Some (PInt 0) \<and>
   task_field (redis (fst (snd (start_task uid p i now m)))) (generate_task_id uid)
     ''services_stats'' = Some (PDict []) \<and>
   r_pc (snd (snd (start_task uid p i now m))) = Created \<and>
   r_services_stats
     (fst (runner_step (inp\<lparr>in_start_fault := False\<rparr>) (snd (snd (start_task uid p i now m)))
             m')) =
     [(name HungamaService, \<lparr>n_success = 0, n_failed = 0\<rparr>),
      (name ShemarooMeService, \<lparr>n_success = 0, n_failed = 0\<rparr>),
      (name UnacademyService, \<lparr>n_success = 0, n_failed = 0\<rparr>)]"
  by (simp add: start_task_redis task_field_create_task start_task_thread
        runner_step_Created_stats initial_services_stats_eq)

section \<open>The time to live of a record\<close>

lemma run_Nil [simp]: "run [] s = s"
  by (simp add: run_def)

lemma run_Cons [simp]: "run (c # cs) s = run cs (sys_step c s)"
  by (simp add: run_def)

lemma run_append: "run (cs @ ds) s = run ds (run cs s)"
  by (simp add: run_def)

lemma ttl_run_service [simp]: "ttl (redis (snd (run_service inp svc rest r m))) = ttl (redis m)"
  by (simp add: run_service_def Let_def ttl_update_task split: sum.splits option.splits)


lemma ttl_stop_task [simp]: "ttl (redis (snd (stop_task tid now m))) = ttl (redis m)"
  by (simp add: stop_task_def Let_def ttl_update_task split: sum.splits option.splits)








lemma sys_step_Start:
  "mgr (sys_step (Start_task uid p i now) s) = fst (snd (start_task uid p i now (mgr s)))"
  "threads (sys_step (Start_task uid p i now) s) =
     threads s @ [snd (snd (start_task uid p i now (mgr s)))]"
  by (cases "start_task uid p i now (mgr s)", simp)+

lemma sys_step_Thread:
  "i < length (threads s) \<Longrightarrow>
   mgr (sys_step (Thread_step i inp) s) = snd (runner_step inp (threads s ! i) (mgr s))"
  "i < length (threads s) \<Longrightarrow>
   threads (sys_step (Thread_step i inp) s) =
     (threads s)[i := fst (runner_step inp (threads s ! i) (mgr s))]"
  "\<not> i < length (threads s) \<Longrightarrow> sys_step (Thread_step i inp) s = s"
  by (cases "runner_step inp (threads s ! i) (mgr s)", simp)+



section \<open>\<^verbatim>\<open>stop_task\<close>\<close>

lemma stop_task_stopped:
  assumes "get_task (redis m) tid = Inr (Some task)"
    and "task ''status'' = Some (PStr (status_value RUNNING))"
  shows "fst (stop_task tid now m) = Inr (Stopped tid)"
    and "redis (snd (stop_task tid now m)) =
           update_task tid [(''status'', PStr (status_value STOPPED)), (''stopped_at'', PStr now)]
             (redis m)"
    and "active_tasks (snd (stop_task tid now m)) = (active_tasks m)(tid := None)"
    and "events (snd (stop_task tid now m)) =
           (case active_tasks m tid of None \<Rightarrow> events m | Some ev \<Rightarrow> (events m)(ev := True))"
    and "next_event (snd (stop_task tid now m)) = next_event m"
  using assms by (auto simp add: stop_task_def Let_def split: option.splits)

lemma stop_task_refused:
  assumes "fst (stop_task tid now m) \<noteq> Inr (Stopped tid)"
  shows "snd (stop_task tid now m) = m"
  using assms by (auto simp add: stop_task_def Let_def split: option.splits sum.splits if_splits)

lemma get_task_after_stop:
  assumes "get_task db tid = Inr (Some task)"
  shows "get_task (update_task tid [(''status'', PStr s), (''stopped_at'', PStr now)] db) tid =
           Inr (Some (parsed (hgetall (get_key tid) db ++
              map_of (redis_data [(''status'', PStr s), (''stopped_at'', PStr now)]))))"
  using get_task_update [of db tid "[(''status'', PStr s), (''stopped_at'', PStr now)]"] assms
    stop_clean by simp

lemma demo_created_get_task:
  "get_task (redis (mgr demo_created)) demo_id =
     Inr (Some (parsed (hgetall (get_key demo_id) (redis (mgr demo_created)))))"
  by (simp add: get_task_cases Let_def)
     (simp add: demo_created_def eval_defs hgetall_def parse_fails_def parse_value_def
        int_fields_def int_of_str_str_int str_int_nonempty)

lemma demo_running_get_task:
  "get_task (redis (mgr demo_running)) demo_id =
     Inr (Some (parsed (hgetall (get_key demo_id) (redis (mgr demo_running)))))"
  by (simp add: get_task_cases Let_def)
     (simp add: demo_running_def eval_defs hgetall_def parse_fails_def parse_value_def
        int_fields_def int_of_str_str_int str_int_nonempty)

lemma demo_status:
  "parsed (hgetall (get_key demo_id) (redis (mgr demo_created))) ''status'' = Some (PStr ''pending'')"
  "parsed (hgetall (get_key demo_id) (redis (mgr demo_running))) ''status'' = Some (PStr ''running'')"
  "parsed (hgetall (get_key demo_id) (redis (mgr demo_pass))) ''status'' = Some (PStr ''running'')"
  by (simp_all add: demo_created_def demo_running_def demo_pass_def eval_defs read_defs)

lemma demo_registry:
  "active_tasks (mgr demo_created) demo_id = Some 0"
  "active_tasks (mgr demo_running) demo_id = Some 0"
  "active_tasks (mgr demo_pass) demo_id = Some 0"
  "\<not> events (mgr demo_created) 0"
  "\<not> events (mgr demo_running) 0"
  "\<not> events (mgr demo_pass) 0"
  by (simp_all add: demo_created_def demo_running_def demo_pass_def eval_defs)

text \<open>
  C2. \<^verbatim>\<open>stop_task\<close> replies not-found when \<^verbatim>\<open>get_task\<close> finds no record, and replies
  that the task is not running, an invalid-state error, when the record's status is
  not \<^verbatim>\<open>running\<close>; in both cases nothing changes. Otherwise it sets the task's event,
  if the registry has one, removes the registry entry, merge-updates the record with
  \<open>status = stopped\<close> and \<open>stopped_at = now\<close>, leaving every other field, and replies
  that the task is stopped. A second \<^verbatim>\<open>stop_task\<close> right after such a reply gets the
  invalid-state error and changes nothing. (That a record has a \<open>status\<close> at all, in
  every state the system reaches, is \<open>record_has_status\<close> below.)
\<close>

theorem stop_task_spec:
  "(get_task (redis m) tid = Inr None \<longrightarrow>
      stop_task tid now m = (Inr (Not_found tid), m) \<and> is_NotFound (Not_found tid)) \<and>
   (get_task (redis m) tid = Inr (Some task) \<and> task ''status'' = Some st \<and>
    st \<noteq> PStr (status_value RUNNING) \<longrightarrow>
      stop_task tid now m = (Inr (Not_running tid st), m) \<and>
      is_InvalidState (Not_running tid st)) \<and>
   (get_task (redis m) tid = Inr (Some task) \<and>
    task ''status'' = Some (PStr (status_value RUNNING)) \<longrightarrow>
      fst (stop_task tid now m) = Inr (Stopped tid) \<and>
      active_tasks (snd (stop_task tid now m)) tid = None \<and>
      (\<forall>ev. active_tasks m tid = Some ev \<longrightarrow> events (snd (stop_task tid now m)) ev) \<and>
      redis (snd (stop_task tid now m)) =
        update_task tid [(''status'', PStr (status_value STOPPED)), (''stopped_at'', PStr now)]
          (redis m) \<and>
      hgetall (get_key tid) (redis (snd (stop_task tid now m))) =
        (hgetall (get_key tid) (redis m))
          (''status'' \<mapsto> Str ''stopped'', ''stopped_at'' \<mapsto> Str now) \<and>
      task_field (redis (snd (stop_task tid now m))) tid ''status'' = Some (PStr ''stopped'') \<and>
      stop_task tid now' (snd (stop_task tid now m)) =
        (Inr (Not_running tid (PStr ''stopped'')), snd (stop_task tid now m)))"
proof (intro conjI impI)
  assume "get_task (redis m) tid = Inr None"
  then show "stop_task tid now m = (Inr (Not_found tid), m)"
    by (simp add: stop_task_def)
next
  assume "get_task (redis m) tid = Inr (Some task) \<and> task ''status'' = Some st \<and>
    st \<noteq> PStr (status_value RUNNING)"
  then show "stop_task tid now m = (Inr (Not_running tid st), m)"
    by (simp add: stop_task_def)
next
  assume h: "get_task (redis m) tid = Inr (Some task) \<and>
    task ''status'' = Some (PStr (status_value RUNNING))"
  then have g: "get_task (redis m) tid = Inr (Some task)"
    and s: "task ''status'' = Some (PStr (status_value RUNNING))" by simp_all
  note st = stop_task_stopped [OF g s, of now]
  show "fst (stop_task tid now m) = Inr (Stopped tid)" by (rule st(1))
  show "active_tasks (snd (stop_task tid now m)) tid = None" by (simp add: st(3))
  show "\<forall>ev. active_tasks m tid = Some ev \<longrightarrow> events (snd (stop_task tid now m)) ev"
    by (simp add: st(4))
  show r: "redis (snd (stop_task tid now m)) =
        update_task tid [(''status'', PStr (status_value STOPPED)), (''stopped_at'', PStr now)]
          (redis m)" by (rule st(2))
  show "hgetall (get_key tid) (redis (snd (stop_task tid now m))) =
        (hgetall (get_key tid) (redis m))
          (''status'' \<mapsto> Str ''stopped'', ''stopped_at'' \<mapsto> Str now)"
    by (rule ext) (simp add: r hgetall_update_task redis_data_def)
  have g2: "get_task (redis (snd (stop_task tid now m))) tid =
      Inr (Some (parsed (hgetall (get_key tid) (redis m) ++
              map_of (redis_data [(''status'', PStr ''stopped''), (''stopped_at'', PStr now)]))))"
    using get_task_after_stop [OF g, of "''stopped''" now] by (simp add: r)
  have s2: "parsed (hgetall (get_key tid) (redis m) ++
              map_of (redis_data [(''status'', PStr ''stopped''), (''stopped_at'', PStr now)]))
            ''status'' = Some (PStr ''stopped'')"
    by (simp add: parsed_add redis_data_def) (simp add: parsed_def parse_value_def int_fields_def)
  show "task_field (redis (snd (stop_task tid now m))) tid ''status'' = Some (PStr ''stopped'')"
    by (simp add: task_field_def g2 s2)
  show "stop_task tid now' (snd (stop_task tid now m)) =
        (Inr (Not_running tid (PStr ''stopped'')), snd (stop_task tid now m))"
    by (simp add: stop_task_def [of tid now' "snd (stop_task tid now m)"] g2 s2)
qed simp_all

theorem stop_task_spec_witness:
  "get_task (redis new_manager) demo_id = Inr None \<and>
   stop_task demo_id ''2026-01-01T00:00:09'' new_manager = (Inr (Not_found demo_id), new_manager) \<and>
   get_task (redis (mgr demo_created)) demo_id =
     Inr (Some (parsed (hgetall (get_key demo_id) (redis (mgr demo_created))))) \<and>
   parsed (hgetall (get_key demo_id) (redis (mgr demo_created))) ''status'' =
     Some (PStr ''pending'') \<and>
   PStr ''pending'' \<noteq> PStr (status_value RUNNING) \<and>
   stop_task demo_id ''2026-01-01T00:00:09'' (mgr demo_created) =
     (Inr (Not_running demo_id (PStr ''pending'')), mgr demo_created) \<and>
   get_task (redis (mgr demo_running)) demo_id =
     Inr (Some (parsed (hgetall (get_key demo_id) (redis (mgr demo_running))))) \<and>
   parsed (hgetall (get_key demo_id) (redis (mgr demo_running))) ''status'' =
     Some (PStr (status_value RUNNING)) \<and>
   active_tasks (mgr demo_running) demo_id = Some 0 \<and>
   \<not> events (mgr demo_running) 0 \<and>
   fst (stop_task demo_id ''2026-01-01T00:00:09'' (mgr demo_running)) = Inr (Stopped demo_id) \<and>
   events (snd (stop_task demo_id ''2026-01-01T00:00:09'' (mgr demo_running))) 0 \<and>
   active_tasks (snd (stop_task demo_id ''2026-01-01T00:00:09'' (mgr demo_running))) demo_id =
     None \<and>
   task_field (redis (snd (stop_task demo_id ''2026-01-01T00:00:09'' (mgr demo_running))))
     demo_id ''status'' = Some (PStr ''stopped'') \<and>
   fst (stop_task demo_id ''2026-01-01T00:00:10''
          (snd (stop_task demo_id ''2026-01-01T00:00:09'' (mgr demo_running)))) =
     Inr (Not_running demo_id (PStr ''stopped''))"
proof -
  have a: "get_task (redis new_manager) demo_id = Inr None"
    by (simp add: get_task_cases hgetall_def new_manager_def empty_db_def)
  have b: "parsed (hgetall (get_key demo_id) (redis (mgr demo_created))) ''status'' =
      Some (PStr ''pending'') \<and> PStr ''pending'' \<noteq> PStr (status_value RUNNING)"
    by (simp add: demo_status)
  have c: "parsed (hgetall (get_key demo_id) (redis (mgr demo_running))) ''status'' =
     Some (PStr (status_value RUNNING))"
    by (simp add: demo_status)
  show ?thesis
    using stop_task_spec [where m = new_manager and tid = demo_id
        and now = "''2026-01-01T00:00:09''"] a
      stop_task_spec [where m = "mgr demo_created" and tid = demo_id
        and task = "parsed (hgetall (get_key demo_id) (redis (mgr demo_created)))"
        and st = "PStr ''pending''" and now = "''2026-01-01T00:00:09''"]
      demo_created_get_task b
      stop_task_spec [where m = "mgr demo_running" and tid = demo_id
        and task = "parsed (hgetall (get_key demo_id) (redis (mgr demo_running)))"
        and st = "PStr ''running''"
        and now = "''2026-01-01T00:00:09''" and now' = "''2026-01-01T00:00:10''"]
      demo_running_get_task c demo_registry
    by auto
qed

section \<open>\<^verbatim>\<open>delete_task\<close>\<close>

lemma redis_delete_task_hashes:
  "hashes (snd (redis_delete_task tid db)) = (hashes db)(get_key tid := None)"
  by (auto simp add: redis_delete_task_def del_def split: prod.splits)

text \<open>
  C5. \<^verbatim>\<open>delete_task\<close> replies not-found when \<^verbatim>\<open>get_task\<close> finds no record. When the
  record's status is \<^verbatim>\<open>running\<close> it replies with the invalid-state error and the
  store, like everything else, is as before. With any other status it removes the record
  from the store, touches no other record and not the registry, and replies that the
  task is deleted.
\<close>

theorem delete_task_spec:
  "(get_task (redis m) tid = Inr None \<longrightarrow>
      delete_task tid m = (Inr (Not_found tid), m) \<and> is_NotFound (Not_found tid)) \<and>
   (get_task (redis m) tid = Inr (Some task) \<and>
    task ''status'' = Some (PStr (status_value RUNNING)) \<longrightarrow>
      delete_task tid m = (Inr Cannot_delete_running, m) \<and>
      is_InvalidState Cannot_delete_running) \<and>
   (get_task (redis m) tid = Inr (Some task) \<and> task ''status'' = Some st \<and>
    st \<noteq> PStr (status_value RUNNING) \<longrightarrow>
      fst (delete_task tid m) = Inr (Deleted tid) \<and>
      hashes (redis (snd (delete_task tid m))) = (hashes (redis m))(get_key tid := None) \<and>
      get_task (redis (snd (delete_task tid m))) tid = Inr None \<and>
      active_tasks (snd (delete_task tid m)) = active_tasks m \<and>
      events (snd (delete_task tid m)) = events m)"
  by (auto simp add: delete_task_def redis_delete_task_hashes get_task_cases hgetall_def)

theorem delete_task_spec_witness:
  "get_task (redis new_manager) demo_id = Inr None \<and>
   delete_task demo_id new_manager = (Inr (Not_found demo_id), new_manager) \<and>
   get_task (redis (mgr demo_running)) demo_id =
     Inr (Some (parsed (hgetall (get_key demo_id) (redis (mgr demo_running))))) \<and>
   parsed (hgetall (get_key demo_id) (redis (mgr demo_running))) ''status'' =
     Some (PStr (status_value RUNNING)) \<and>
   delete_task demo_id (mgr demo_running) = (Inr Cannot_delete_running, mgr demo_running) \<and>
   get_task (redis (mgr demo_created)) demo_id =
     Inr (Some (parsed (hgetall (get_key demo_id) (redis (mgr demo_created))))) \<and>
   parsed (hgetall (get_key demo_id) (redis (mgr demo_created))) ''status'' =
     Some (PStr ''pending'') \<and>
   PStr ''pending'' \<noteq> PStr (status_value RUNNING) \<and>
   fst (delete_task demo_id (mgr demo_created)) = Inr (Deleted demo_id) \<and>
   get_task (redis (snd (delete_task demo_id (mgr demo_created)))) demo_id = Inr None"
proof -
  have a: "get_task (redis new_manager) demo_id = Inr None"
    by (simp add: get_task_cases hgetall_def new_manager_def empty_db_def)
  have b: "parsed (hgetall (get_key demo_id) (redis (mgr demo_created))) ''status'' =
      Some (PStr ''pending'') \<and> PStr ''pending'' \<noteq> PStr (status_value RUNNING)"
    by (simp add: demo_status)
  have c: "parsed (hgetall (get_key demo_id) (redis (mgr demo_running))) ''status'' =
     Some (PStr (status_value RUNNING))"
    by (simp add: demo_status)
  show ?thesis
    using delete_task_spec [where m = new_manager and tid = demo_id] a
      delete_task_spec [where m = "mgr demo_running" and tid = demo_id
        and task = "parsed (hgetall (get_key demo_id) (redis (mgr demo_running)))"
        and st = "PStr ''running''"]
      demo_running_get_task c
      delete_task_spec [where m = "mgr demo_created" and tid = demo_id
        and task = "parsed (hgetall (get_key demo_id) (redis (mgr demo_created)))"
        and st = "PStr ''pending''"]
      demo_created_get_task b
    by auto
qed

section \<open>The way out on an exception\<close>

lemma runner_step_raises:
  assumes "raises inp r m"
  shows "r_pc (fst (runner_step inp r m)) = Finished"
    and "redis (snd (runner_step inp r m)) =
           (if in_handler_fault inp
            then (if r_pc r = Created
                  then update_task (r_task_id r)
                         [(''status'', PStr (status_value RUNNING)),
                          (''started_at'', PStr (in_now inp))] (redis m)
                  else redis m)
            else update_task (r_task_id r) (error_updates (in_now inp) (in_str_e inp))
                   (if r_pc r = Created
                    then update_task (r_task_id r)
                           [(''status'', PStr (status_value RUNNING)),
                            (''started_at'', PStr (in_now inp))] (redis m)
                    else redis m))"
    and "active_tasks (snd (runner_step inp r m)) = (active_tasks m)(r_task_id r := None)"
    and "events (snd (runner_step inp r m)) = events m"
  using assms
  by (auto simp add: raises_def runner_step_def Let_def run_service_raised
        split: pc.splits list.splits)

lemma runner_step_quiet:
  assumes "\<not> raises inp r m"
  shows "hgetall (get_key (r_task_id r)) (redis (snd (runner_step inp r m))) ''status'' =
           (if r_pc r = Created \<and> \<not> in_start_fault inp then Some (Str (status_value RUNNING))
            else hgetall (get_key (r_task_id r)) (redis m) ''status'')"
proof (cases "r_pc r")
  case Created
  then show ?thesis using assms
    by (auto simp add: raises_def runner_step_def Let_def hgetall_update_task redis_data_def)
next
  case While_test
  then show ?thesis by (simp add: runner_step_def)
next
  case (For_test ss)
  show ?thesis
  proof (cases ss)
    case Nil
    then show ?thesis using For_test by (simp add: runner_step_def)
  next
    case (Cons svc rest)
    show ?thesis
    proof (cases "events m (r_stop_event r)")
      case True
      then show ?thesis using For_test Cons by (simp add: runner_step_def)
    next
      case False
      then have f: "\<not> in_fault inp" and g: "\<not> isl (get_task (redis m) (r_task_id r))"
        using assms For_test Cons by (simp_all add: raises_def)
      show ?thesis
      proof (cases "get_task (redis m) (r_task_id r)")
        case (Inl e)
        then show ?thesis using g by simp
      next
        case (Inr topt)
        show ?thesis
        proof (cases topt)
          case None
          then show ?thesis using For_test Cons False f Inr
            by (simp add: runner_step_For_test run_service_absent)
        next
          case (Some task)
          then show ?thesis using For_test Cons False f Inr
            by (simp add: runner_step_For_test run_service_written hgetall_update_task
                  redis_data_def progress_updates_def)
        qed
      qed
    qed
  qed
next
  case Finished
  then show ?thesis by (simp add: runner_step_def)
qed

lemma runner_step_exit_quiet:
  assumes "\<not> raises inp r m" "r_pc r \<noteq> Finished" "r_pc (fst (runner_step inp r m)) = Finished"
  shows "(r_pc r = While_test \<and> events m (r_stop_event r) \<or>
          r_pc r = Created \<and> in_start_fault inp) \<and>
         redis (snd (runner_step inp r m)) = redis m"
  using assms
  by (auto simp add: raises_def runner_step_def Let_def run_service_def
        split: pc.splits list.splits if_splits sum.splits option.splits)

lemma hgetall_error_updates:
  "hgetall (get_key tid) (update_task tid (error_updates now e) db) ''status'' =
     Some (Str (status_value ERROR))"
  "hgetall (get_key tid) (update_task tid (error_updates now e) db) ''stopped_at'' =
     Some (Str now)"
  "hgetall (get_key tid) (update_task tid (error_updates now e) db) ''last_activity'' =
     Some (Str (''Error: '' @ e))"
  by (simp_all add: hgetall_update_task redis_data_def error_updates_def)

lemmas step_defs = run_service_def send_request_def parse_response_def startswith_def
  new_ServiceResponse_def progress_updates_def task_get_int_def incr_success_def incr_failed_def
  stop_task_def status_value.simps

lemma demo_stopped_thread:
  "threads demo_stopped ! 0 =
     \<lparr>r_task_id = demo_id, r_phone_number = ''5550100000'', r_interval = 10,
      r_stop_event = 0, r_pc = For_test [ShemarooMeService, UnacademyService],
      r_iteration = 1,
      r_services_stats =
        [(''Hungama'', \<lparr>n_success = 1, n_failed = 0\<rparr>),
         (''ShemarooMe'', \<lparr>n_success = 0, n_failed = 0\<rparr>),
         (''Unacademy'', \<lparr>n_success = 0, n_failed = 0\<rparr>)],
      r_total_requests = 1, r_successful = 1, r_failed = 0\<rparr>"
  "length (threads demo_stopped) = 1"
  by (simp_all add: demo_stopped_def eval_defs step_defs read_defs)

lemma demo_stopped_mgr:
  "events (mgr demo_stopped) 0"
  "next_event (mgr demo_stopped) = 1"
  "active_tasks (mgr demo_stopped) demo_id = None"
  by (simp_all add: demo_stopped_def eval_defs step_defs read_defs)

lemma demo_stopped_fields:
  "task_field (redis (mgr demo_stopped)) demo_id ''status'' = Some (PStr ''stopped'')"
  "task_field (redis (mgr demo_stopped)) demo_id ''total_requests'' = Some (PInt 1)"
  "task_field (redis (mgr demo_stopped)) demo_id ''successful_requests'' = Some (PInt 1)"
  "task_field (redis (mgr demo_stopped)) demo_id ''failed_requests'' = Some (PInt 0)"
  "task_field (redis (mgr demo_stopped)) demo_id ''iterations'' = Some (PInt 1)"
  "hgetall (get_key demo_id) (redis (mgr demo_stopped)) ''status'' = Some (Str ''stopped'')"
  by (simp_all add: demo_stopped_def eval_defs step_defs read_defs)

text \<open>
  C6. When an exception reaches the \<^verbatim>\<open>except\<close> clause of \<^verbatim>\<open>_run_task\<close>, the thread
  merge-updates the record with \<open>status = error\<close>, \<open>stopped_at = now\<close> and
  \<open>last_activity = "Error: " + str(e)\<close>, removes its registry entry and returns; when
  the store refuses this write too, nothing is written and the thread returns all the
  same. It is the only way out on which the thread writes a status: the other ways out
  are the \<^verbatim>\<open>while\<close> test finding the event set and the failure of the very first
  write, and both leave the store as it is. A step without an exception writes no
  status at all, but for the first step, which writes \<open>running\<close>.
\<close>

theorem runner_fault_path:
  "(raises inp r m \<and> \<not> in_handler_fault inp \<longrightarrow>
      r_pc (fst (runner_step inp r m)) = Finished \<and>
      redis (snd (runner_step inp r m)) =
        update_task (r_task_id r) (error_updates (in_now inp) (in_str_e inp))
          (if r_pc r = Created
           then update_task (r_task_id r)
                  [(''status'', PStr (status_value RUNNING)),
                   (''started_at'', PStr (in_now inp))] (redis m)
           else redis m) \<and>
      hgetall (get_key (r_task_id r)) (redis (snd (runner_step inp r m))) ''status'' =
        Some (Str (status_value ERROR)) \<and>
      hgetall (get_key (r_task_id r)) (redis (snd (runner_step inp r m))) ''stopped_at'' =
        Some (Str (in_now inp)) \<and>
      hgetall (get_key (r_task_id r)) (redis (snd (runner_step inp r m))) ''last_activity'' =
        Some (Str (''Error: '' @ in_str_e inp)) \<and>
      active_tasks (snd (runner_step inp r m)) (r_task_id r) = None) \<and>
   (raises inp r m \<and> in_handler_fault inp \<longrightarrow>
      r_pc (fst (runner_step inp r m)) = Finished \<and>
      redis (snd (runner_step inp r m)) =
        (if r_pc r = Created
         then update_task (r_task_id r)
                [(''status'', PStr (status_value RUNNING)),
                 (''started_at'', PStr (in_now inp))] (redis m)
         else redis m) \<and>
      active_tasks (snd (runner_step inp r m)) (r_task_id r) = None) \<and>
   (\<not> raises inp r m \<and> r_pc r \<noteq> Finished \<and> r_pc (fst (runner_step inp r m)) = Finished \<longrightarrow>
      (r_pc r = While_test \<and> events m (r_stop_event r) \<or>
       r_pc r = Created \<and> in_start_fault inp) \<and>
      redis (snd (runner_step inp r m)) = redis m) \<and>
   (\<not> raises inp r m \<longrightarrow>
      hgetall (get_key (r_task_id r)) (redis (snd (runner_step inp r m))) ''status'' =
        (if r_pc r = Created \<and> \<not> in_start_fault inp then Some (Str (status_value RUNNING))
         else hgetall (get_key (r_task_id r)) (redis m) ''status''))"
proof (intro conjI impI)
  assume a: "raises inp r m \<and> \<not> in_handler_fault inp"
  then have ra: "raises inp r m" and nh: "\<not> in_handler_fault inp" by simp_all
  note rs = runner_step_raises [OF ra]
  show "r_pc (fst (runner_step inp r m)) = Finished" by (rule rs(1))
  show e: "redis (snd (runner_step inp r m)) =
        update_task (r_task_id r) (error_updates (in_now inp) (in_str_e inp))
          (if r_pc r = Created
           then update_task (r_task_id r)
                  [(''status'', PStr (status_value RUNNING)),
                   (''started_at'', PStr (in_now inp))] (redis m)
           else redis m)" using nh by (simp only: rs(2) if_False)
  show "hgetall (get_key (r_task_id r)) (redis (snd (runner_step inp r m))) ''status'' =
        Some (Str (status_value ERROR))"
    by (simp only: e hgetall_error_updates)
  show "hgetall (get_key (r_task_id r)) (redis (snd (runner_step inp r m))) ''stopped_at'' =
        Some (Str (in_now inp))"
    by (simp only: e hgetall_error_updates)
  show "hgetall (get_key (r_task_id r)) (redis (snd (runner_step inp r m))) ''last_activity'' =
        Some (Str (''Error: '' @ in_str_e inp))"
    by (simp only: e hgetall_error_updates)
  show "active_tasks (snd (runner_step inp r m)) (r_task_id r) = None"
    by (simp add: rs(3))
next
  assume a: "raises inp r m \<and> in_handler_fault inp"
  then have ra: "raises inp r m" and h: "in_handler_fault inp" by simp_all
  note rs = runner_step_raises [OF ra]
  show "r_pc (fst (runner_step inp r m)) = Finished" by (rule rs(1))
  show "redis (snd (runner_step inp r m)) =
        (if r_pc r = Created
         then update_task (r_task_id r)
                [(''status'', PStr (status_value RUNNING)),
                 (''started_at'', PStr (in_now inp))] (redis m)
         else redis m)" using h by (simp only: rs(2) if_True)
  show "active_tasks (snd (runner_step inp r m)) (r_task_id r) = None"
    by (simp add: rs(3))
next
  assume "\<not> raises inp r m \<and> r_pc r \<noteq> Finished \<and> r_pc (fst (runner_step inp r m)) = Finished"
  then show "r_pc r = While_test \<and> events m (r_stop_event r) \<or>
       r_pc r = Created \<and> in_start_fault inp"
    "redis (snd (runner_step inp r m)) = redis m"
    using runner_step_exit_quiet [of inp r m] by simp_all
next
  assume "\<not> raises inp r m"
  then show "hgetall (get_key (r_task_id r)) (redis (snd (runner_step inp r m))) ''status'' =
        (if r_pc r = Created \<and> \<not> in_start_fault inp then Some (Str (status_value RUNNING))
         else hgetall (get_key (r_task_id r)) (redis m) ''status'')"
    by (rule runner_step_quiet)
qed

theorem runner_fault_path_witness:
  "raises step_fault (threads demo_pass ! 0) (mgr demo_pass) \<and>
   \<not> in_handler_fault step_fault \<and>
   r_pc (fst (runner_step step_fault (threads demo_pass ! 0) (mgr demo_pass))) = Finished \<and>
   hgetall (get_key demo_id)
     (redis (snd (runner_step step_fault (threads demo_pass ! 0) (mgr demo_pass)))) ''status'' =
     Some (Str ''error'') \<and>
   hgetall (get_key demo_id)
     (redis (snd (runner_step step_fault (threads demo_pass ! 0) (mgr demo_pass))))
     ''stopped_at'' = Some (Str ''2026-01-01T00:00:03'') \<and>
   hgetall (get_key demo_id)
     (redis (snd (runner_step step_fault (threads demo_pass ! 0) (mgr demo_pass))))
     ''last_activity'' = Some (Str ''Error: Connection refused'') \<and>
   \<not> raises step_ok ((threads demo_stopped ! 0)\<lparr>r_pc := While_test\<rparr>) (mgr demo_stopped) \<and>
   r_pc (fst (runner_step step_ok ((threads demo_stopped ! 0)\<lparr>r_pc := While_test\<rparr>)
               (mgr demo_stopped))) = Finished \<and>
   redis (snd (runner_step step_ok ((threads demo_stopped ! 0)\<lparr>r_pc := While_test\<rparr>)
               (mgr demo_stopped))) = redis (mgr demo_stopped) \<and>
   hgetall (get_key demo_id)
     (redis (snd (runner_step step_ok ((threads demo_stopped ! 0)\<lparr>r_pc := While_test\<rparr>)
                   (mgr demo_stopped)))) ''status'' = Some (Str ''stopped'')"
proof -
  have a: "raises step_fault (threads demo_pass ! 0) (mgr demo_pass)"
    by (simp add: raises_def demo_pass_thread SERVICES_def demo_registry step_fault_def)
  have b: "\<not> raises step_ok ((threads demo_stopped ! 0)\<lparr>r_pc := While_test\<rparr>) (mgr demo_stopped)"
    by (simp add: raises_def)
  have nh: "\<not> in_handler_fault step_fault" by (simp add: step_fault_def)
  have c: "r_pc ((threads demo_stopped ! 0)\<lparr>r_pc := While_test\<rparr>) \<noteq> Finished" by simp
  have d: "r_pc (fst (runner_step step_ok ((threads demo_stopped ! 0)\<lparr>r_pc := While_test\<rparr>)
               (mgr demo_stopped))) = Finished"
    by (simp add: runner_step_def demo_stopped_thread demo_stopped_mgr)
  have t: "r_task_id (threads demo_pass ! 0) = demo_id" "r_task_id (threads demo_stopped ! 0) = demo_id"
    by (simp_all add: demo_pass_thread demo_stopped_thread)
  show ?thesis
    using runner_fault_path [of step_fault "threads demo_pass ! 0" "mgr demo_pass"]
      runner_fault_path [of step_ok "(threads demo_stopped ! 0)\<lparr>r_pc := While_test\<rparr>"
        "mgr demo_stopped"] a b c d nh
    by (auto simp add: t step_fault_def demo_stopped_fields hgetall_error_updates)
qed

section \<open>A thread that finds its event set\<close>

lemma events_run_service [simp]:
  "events (snd (run_service inp svc rest r m)) = events m"
  "next_event (snd (run_service inp svc rest r m)) = next_event m"
  by (simp_all add: run_service_def Let_def split: sum.splits option.splits)

lemma events_runner_step [simp]:
  "events (snd (runner_step inp r m)) = events m"
  "next_event (snd (runner_step inp r m)) = next_event m"
  by (simp_all add: runner_step_def Let_def split: pc.splits list.splits)

lemma events_stop_task:
  "events m ev \<Longrightarrow> events (snd (stop_task tid now m)) ev"
  "next_event (snd (stop_task tid now m)) = next_event m"
  by (auto simp add: stop_task_def Let_def split: sum.splits option.splits)

lemma events_delete_task [simp]:
  "events (snd (delete_task tid m)) = events m"
  "next_event (snd (delete_task tid m)) = next_event m"
  "active_tasks (snd (delete_task tid m)) = active_tasks m"
  by (simp_all add: delete_task_def split: sum.splits option.splits)

lemma runner_step_ids [simp]:
  "r_task_id (fst (runner_step inp r m)) = r_task_id r"
  "r_stop_event (fst (runner_step inp r m)) = r_stop_event r"
  by (simp_all add: runner_step_def Let_def run_service_locals split: pc.splits list.splits)

text \<open>A thread that finds its event set only moves on; it writes and counts nothing.\<close>

lemma runner_step_cancelled:
  assumes "r_pc r \<noteq> Created" "events m (r_stop_event r)"
  shows "redis (snd (runner_step inp r m)) = redis m"
    and "r_pc (fst (runner_step inp r m)) \<noteq> Created"
    and "r_services_stats (fst (runner_step inp r m)) = r_services_stats r"
    and "r_total_requests (fst (runner_step inp r m)) = r_total_requests r"
    and "r_successful (fst (runner_step inp r m)) = r_successful r"
    and "r_failed (fst (runner_step inp r m)) = r_failed r"
    and "r_iteration (fst (runner_step inp r m)) = r_iteration r"
  using assms by (simp_all add: runner_step_def split: pc.splits list.splits)

lemma runner_step_break:
  assumes "r_pc r = For_test ss" "events m (r_stop_event r)"
  shows "runner_step inp r m = (r\<lparr>r_pc := While_test\<rparr>, m)"
  using assms by (simp add: runner_step_def split: list.splits)

lemma runner_step_leave:
  assumes "r_pc r = While_test" "events m (r_stop_event r)"
  shows "runner_step inp r m = (r\<lparr>r_pc := Finished\<rparr>, deregister (r_task_id r) m)"
  using assms by (simp add: runner_step_def)

lemma cancelled_sys_step:
  assumes "i < length (threads s)" "r_pc (threads s ! i) \<noteq> Created"
    and "events (mgr s) (r_stop_event (threads s ! i))"
    and "r_stop_event (threads s ! i) < next_event (mgr s)"
  shows "i < length (threads (sys_step c s))"
    and "r_pc (threads (sys_step c s) ! i) \<noteq> Created"
    and "events (mgr (sys_step c s)) (r_stop_event (threads (sys_step c s) ! i))"
    and "r_stop_event (threads (sys_step c s) ! i) < next_event (mgr (sys_step c s))"
    and "r_services_stats (threads (sys_step c s) ! i) = r_services_stats (threads s ! i)"
    and "r_total_requests (threads (sys_step c s) ! i) = r_total_requests (threads s ! i)"
    and "r_successful (threads (sys_step c s) ! i) = r_successful (threads s ! i)"
    and "r_failed (threads (sys_step c s) ! i) = r_failed (threads s ! i)"
    and "r_iteration (threads (sys_step c s) ! i) = r_iteration (threads s ! i)"
proof -
  have "i < length (threads (sys_step c s)) \<and>
    r_pc (threads (sys_step c s) ! i) \<noteq> Created \<and>
    events (mgr (sys_step c s)) (r_stop_event (threads (sys_step c s) ! i)) \<and>
    r_stop_event (threads (sys_step c s) ! i) < next_event (mgr (sys_step c s)) \<and>
    r_services_stats (threads (sys_step c s) ! i) = r_services_stats (threads s ! i) \<and>
    r_total_requests (threads (sys_step c s) ! i) = r_total_requests (threads s ! i) \<and>
    r_successful (threads (sys_step c s) ! i) = r_successful (threads s ! i) \<and>
    r_failed (threads (sys_step c s) ! i) = r_failed (threads s ! i) \<and>
    r_iteration (threads (sys_step c s) ! i) = r_iteration (threads s ! i)"
  proof (cases c)
    case (Start_task uid p iv now)
    then show ?thesis using assms
      by (simp only: sys_step_Start start_task_mgr) (auto simp add: nth_append)
  next
    case (Stop_task tid now)
    then show ?thesis using assms by (simp add: events_stop_task)
  next
    case (Delete_task tid)
    then show ?thesis using assms by simp
  next
    case (Elapse d)
    then show ?thesis using assms by simp
  next
    case (Thread_step j inp)
    show ?thesis
    proof (cases "j < length (threads s)")
      case False
      then show ?thesis using assms Thread_step by (simp only: sys_step_Thread) simp
    next
      case True
      show ?thesis
      proof (cases "j = i")
        case True
        then show ?thesis using assms Thread_step
          by (simp only: sys_step_Thread) (simp add: runner_step_cancelled)
      next
        case False
        then show ?thesis using assms Thread_step True
          by (simp only: sys_step_Thread) simp
      qed
    qed
  qed
  then show "i < length (threads (sys_step c s))"
    and "r_pc (threads (sys_step c s) ! i) \<noteq> Created"
    and "events (mgr (sys_step c s)) (r_stop_event (threads (sys_step c s) ! i))"
    and "r_stop_event (threads (sys_step c s) ! i) < next_event (mgr (sys_step c s))"
    and "r_services_stats (threads (sys_step c s) ! i) = r_services_stats (threads s ! i)"
    and "r_total_requests (threads (sys_step c s) ! i) = r_total_requests (threads s ! i)"
    and "r_successful (threads (sys_step c s) ! i) = r_successful (threads s ! i)"
    and "r_failed (threads (sys_step c s) ! i) = r_failed (threads s ! i)"
    and "r_iteration (threads (sys_step c s) ! i) = r_iteration (threads s ! i)"
    by simp_all
qed

lemma cancelled_run:
  assumes "i < length (threads s)" "r_pc (threads s ! i) \<noteq> Created"
    and "events (mgr s) (r_stop_event (threads s ! i))"
    and "r_stop_event (threads s ! i) < next_event (mgr s)"
  shows "i < length (threads (run cs s)) \<and>
    r_pc (threads (run cs s) ! i) \<noteq> Created \<and>
    events (mgr (run cs s)) (r_stop_event (threads (run cs s) ! i)) \<and>
    r_stop_event (threads (run cs s) ! i) < next_event (mgr (run cs s)) \<and>
    r_services_stats (threads (run cs s) ! i) = r_services_stats (threads s ! i) \<and>
    r_total_requests (threads (run cs s) ! i) = r_total_requests (threads s ! i) \<and>
    r_successful (threads (run cs s) ! i) = r_successful (threads s ! i) \<and>
    r_failed (threads (run cs s) ! i) = r_failed (threads s ! i) \<and>
    r_iteration (threads (run cs s) ! i) = r_iteration (threads s ! i)"
  using assms
proof (induction cs arbitrary: s)
  case Nil
  then show ?case by simp
next
  case (Cons c cs)
  note st = cancelled_sys_step [OF Cons.prems, of c]
  show ?case
    using Cons.IH [OF st(1-4)] st(5-9) by (simp del: sys_step.simps)
qed

text \<open>
  C4. A thread that stands between two services of a pass and finds its event set
  leaves the \<^verbatim>\<open>for\<close> loop: the step changes nothing but where the thread stands, so no
  counter grows for the services not run. Its next step leaves the \<^verbatim>\<open>while\<close> loop and
  returns, and the store is as it was, the status that \<^verbatim>\<open>stop_task\<close> wrote included.
  From then on, whatever commands the system runs and however long, the thread's own
  counters stay as they were and no step of the thread changes the store.
\<close>

theorem cancellation_observed:
  assumes "i < length (threads s)"
    and "r_pc (threads s ! i) = For_test ss"
    and "events (mgr s) (r_stop_event (threads s ! i))"
    and "r_stop_event (threads s ! i) < next_event (mgr s)"
  shows "sys_step (Thread_step i inp) s =
           s\<lparr>threads := (threads s)[i := (threads s ! i)\<lparr>r_pc := While_test\<rparr>]\<rparr> \<and>
         r_pc (threads (run [Thread_step i inp, Thread_step i inp'] s) ! i) = Finished \<and>
         redis (mgr (run [Thread_step i inp, Thread_step i inp'] s)) = redis (mgr s) \<and>
         redis (mgr (sys_step (Thread_step i inp) (run cs s))) = redis (mgr (run cs s)) \<and>
         r_services_stats (threads (run cs s) ! i) = r_services_stats (threads s ! i) \<and>
         r_total_requests (threads (run cs s) ! i) = r_total_requests (threads s ! i) \<and>
         r_successful (threads (run cs s) ! i) = r_successful (threads s ! i) \<and>
         r_failed (threads (run cs s) ! i) = r_failed (threads s ! i)"
proof -
  let ?r = "threads s ! i"
  have b: "runner_step inp ?r (mgr s) = (?r\<lparr>r_pc := While_test\<rparr>, mgr s)"
    using runner_step_break [OF assms(2,3)] .
  have s1: "sys_step (Thread_step i inp) s = s\<lparr>threads := (threads s)[i := ?r\<lparr>r_pc := While_test\<rparr>]\<rparr>"
    using assms(1) b by simp
  let ?s1 = "s\<lparr>threads := (threads s)[i := ?r\<lparr>r_pc := While_test\<rparr>]\<rparr>"
  have l: "runner_step inp' (threads ?s1 ! i) (mgr ?s1) =
      (?r\<lparr>r_pc := Finished\<rparr>, deregister (r_task_id ?r) (mgr s))"
    using runner_step_leave [of "?r\<lparr>r_pc := While_test\<rparr>" "mgr s" inp'] assms(1,3) by simp
  have s2: "run [Thread_step i inp, Thread_step i inp'] s =
      \<lparr>mgr = deregister (r_task_id ?r) (mgr s), threads = (threads s)[i := ?r\<lparr>r_pc := Finished\<rparr>]\<rparr>"
    using assms(1) l by (simp add: s1 del: sys_step.simps) (simp add: l)
  have nc: "r_pc ?r \<noteq> Created" using assms(2) by simp
  note inv = cancelled_run [OF assms(1) nc assms(3,4), of cs]
  have "redis (snd (runner_step inp (threads (run cs s) ! i) (mgr (run cs s)))) =
      redis (mgr (run cs s))"
    using runner_step_cancelled(1) inv by blast
  then have w: "redis (mgr (sys_step (Thread_step i inp) (run cs s))) = redis (mgr (run cs s))"
    using inv by (simp only: sys_step_Thread)
  show ?thesis
    using s1 w inv assms(1) by (simp add: s2 del: sys_step.simps run_Cons)
qed


theorem cancellation_observed_witness:
  "0 < length (threads demo_stopped) \<and>
   r_pc (threads demo_stopped ! 0) = For_test [ShemarooMeService, UnacademyService] \<and>
   events (mgr demo_stopped) (r_stop_event (threads demo_stopped ! 0)) \<and>
   r_stop_event (threads demo_stopped ! 0) < next_event (mgr demo_stopped) \<and>
   r_pc (threads (sys_step (Thread_step 0 step_ok) demo_stopped) ! 0) = While_test \<and>
   r_pc (threads (run [Thread_step 0 step_ok, Thread_step 0 step_ok] demo_stopped) ! 0) =
     Finished \<and>
   redis (mgr (run [Thread_step 0 step_ok, Thread_step 0 step_ok] demo_stopped)) =
     redis (mgr demo_stopped) \<and>
   redis (mgr (sys_step (Thread_step 0 step_ok)
       (run [Thread_step 0 step_ok, Elapse 30, Thread_step 0 step_ok,
             Thread_step 0 step_timeout, Elapse 30] demo_stopped))) =
     redis (mgr (run [Thread_step 0 step_ok, Elapse 30, Thread_step 0 step_ok,
                      Thread_step 0 step_timeout, Elapse 30] demo_stopped)) \<and>
   r_total_requests (threads (run [Thread_step 0 step_ok, Elapse 30, Thread_step 0 step_ok,
       Thread_step 0 step_timeout, Elapse 30] demo_stopped) ! 0) = 1 \<and>
   task_field (redis (mgr (run [Thread_step 0 step_ok, Elapse 30, Thread_step 0 step_ok,
       Thread_step 0 step_timeout, Elapse 30] demo_stopped))) demo_id ''total_requests'' =
     Some (PInt 1) \<and>
   task_field (redis (mgr (run [Thread_step 0 step_ok, Elapse 30, Thread_step 0 step_ok,
       Thread_step 0 step_timeout, Elapse 30] demo_stopped))) demo_id ''status'' =
     Some (PStr ''stopped'')"
proof -
  have g: "task_field (redis (mgr (run [Thread_step 0 step_ok, Elapse 30, Thread_step 0 step_ok,
       Thread_step 0 step_timeout, Elapse 30] demo_stopped))) demo_id ''total_requests'' =
     Some (PInt 1)"
    "task_field (redis (mgr (run [Thread_step 0 step_ok, Elapse 30, Thread_step 0 step_ok,
       Thread_step 0 step_timeout, Elapse 30] demo_stopped))) demo_id ''status'' =
     Some (PStr ''stopped'')"
    by (simp_all add: demo_stopped_def eval_defs step_defs read_defs elapse_def deregister_def)
  have a: "0 < length (threads demo_stopped)" by (simp add: demo_stopped_thread)
  have b: "r_pc (threads demo_stopped ! 0) = For_test [ShemarooMeService, UnacademyService]"
    by (simp add: demo_stopped_thread)
  have c: "events (mgr demo_stopped) (r_stop_event (threads demo_stopped ! 0))"
    by (simp add: demo_stopped_thread demo_stopped_mgr)
  have d: "r_stop_event (threads demo_stopped ! 0) < next_event (mgr demo_stopped)"
    by (simp add: demo_stopped_thread demo_stopped_mgr)
  have e: "r_total_requests (threads demo_stopped ! 0) = 1" by (simp add: demo_stopped_thread)
  note th = cancellation_observed [OF a b c d, of step_ok step_ok
      "[Thread_step 0 step_ok, Elapse 30, Thread_step 0 step_ok,
        Thread_step 0 step_timeout, Elapse 30]"]
  have f: "r_pc (threads (sys_step (Thread_step 0 step_ok) demo_stopped) ! 0) = While_test"
    using a by (simp add: th [THEN conjunct1] del: sys_step.simps)
  show ?thesis
    using th a b c d e f g by (simp del: run_Cons sys_step.simps)
qed

section \<open>The counters of a record\<close>


lemma incr_keys [simp]:
  "map fst (incr_success nm st) = map fst st"
  "map fst (incr_failed nm st) = map fst st"
  by (induction st) (auto simp add: incr_success_def incr_failed_def)


lemma sums_initial [simp]:
  "sum_success initial_services_stats = 0" "sum_failed initial_services_stats = 0"
  "sum_success [] = 0" "sum_failed [] = 0"
  "map fst initial_services_stats = map name SERVICES"
  by (simp_all add: sum_success_def sum_failed_def initial_services_stats_def SERVICES_def)


lemma counters_consistent_empty [simp]: "counters_consistent Map.empty"
  by (simp add: counters_consistent_def task_get_int_def task_get_stats_def)






lemma get_task_Some_hashes:
  assumes "get_task db tid = Inr (Some task)"
  shows "hashes db (get_key tid) = Some (hgetall (get_key tid) db)"
    and "task = parsed (hgetall (get_key tid) db)"
  using assms
  by (auto simp add: get_task_cases Let_def hgetall_def split: if_splits option.splits)













lemma hashes_create_task:
  "hashes (snd (create_task tid p i now db)) =
     (hashes db)(get_key tid \<mapsto>
        hgetall (get_key tid) db ++ map_of (redis_data (initial_task_data tid p i now)))"
  by (simp add: create_task_def Let_def hset_def expire_def hgetall_def)

lemma hashes_delete_task:
  "hashes (redis (snd (delete_task tid m))) k = hashes (redis m) k \<or>
   hashes (redis (snd (delete_task tid m))) k = None"
  by (auto simp add: delete_task_def redis_delete_task_hashes split: sum.splits option.splits)

lemma hashes_elapse:
  "hashes (elapse d db) k = hashes db k \<or> hashes (elapse d db) k = None"
  by (auto simp add: elapse_def split: option.splits)

lemma stop_task_redis_cases:
  "redis (snd (stop_task tid now m)) = redis m \<or>
   (hashes (redis m) (get_key tid) \<noteq> None \<and>
    redis (snd (stop_task tid now m)) =
      update_task tid [(''status'', PStr (status_value STOPPED)), (''stopped_at'', PStr now)]
        (redis m))"
proof (cases "fst (stop_task tid now m) = Inr (Stopped tid)")
  case False
  then show ?thesis using stop_task_refused [of tid now m] by simp
next
  case True
  then obtain task where g: "get_task (redis m) tid = Inr (Some task)"
    and s: "task ''status'' = Some (PStr (status_value RUNNING))"
    by (auto simp add: stop_task_def Let_def split: sum.splits option.splits if_splits)
  show ?thesis
    using get_task_Some_hashes(1) [OF g] stop_task_stopped(2) [OF g s, of now] by simp
qed




lemma fresh_ids_append:
  "fresh_ids (cs @ ds) s = (fresh_ids cs s \<and> fresh_ids ds (run cs s))"
  by (induction cs arbitrary: s) (simp_all del: sys_step.simps)




section \<open>The status field of a record\<close>

lemma statuses_ok_update:
  assumes "statuses_ok db"
    and "map_of (redis_data ups) ''status'' \<noteq> None \<or> hashes db (get_key tid) \<noteq> None"
  shows "statuses_ok (update_task tid ups db)"
  using assms
  by (auto simp add: statuses_ok_def hashes_update_task hgetall_def map_add_def
        split: option.splits)

lemma statuses_ok_shrink:
  assumes "statuses_ok db" and "\<And>k. hashes db' k = hashes db k \<or> hashes db' k = None"
  shows "statuses_ok db'"
  unfolding statuses_ok_def
proof (intro allI impI)
  fix k h assume "hashes db' k = Some h"
  then have "hashes db k = Some h" using assms(2) [of k] by auto
  then show "h ''status'' \<noteq> None" using assms(1) by (auto simp add: statuses_ok_def)
qed

lemma statuses_ok_runner_step:
  assumes "statuses_ok (redis m)"
  shows "statuses_ok (redis (snd (runner_step inp r m)))"
proof -
  have e: "statuses_ok (update_task t (error_updates now e) db)" if "statuses_ok db" for t now e db
    using that by (rule statuses_ok_update) (simp add: redis_data_def error_updates_def)
  have s: "statuses_ok (update_task t [(''status'', a), (''started_at'', b)] db)"
    if "statuses_ok db" for t a b db
    using that by (rule statuses_ok_update) (simp add: redis_data_def)
  have p: "statuses_ok (update_task t ups (redis m))"
    if "get_task (redis m) t = Inr (Some task)" for t ups task
    using assms get_task_Some_hashes(1) [OF that] by (intro statuses_ok_update) simp_all
  show ?thesis
    using assms e s p
    by (auto simp add: runner_step_def run_service_def Let_def on_exception_def
          split: pc.splits list.splits sum.splits option.splits)
qed

lemma statuses_ok_sys_step:
  assumes "statuses_ok (redis (mgr s))"
  shows "statuses_ok (redis (mgr (sys_step c s)))"
proof (cases c)
  case (Start_task uid p i now)
  have "statuses_ok (snd (create_task (generate_task_id uid) p i now (redis (mgr s))))"
    using assms
    by (auto simp add: statuses_ok_def hashes_create_task redis_data_def initial_task_data_def)
  then show ?thesis unfolding Start_task by (simp only: sys_step_Start start_task_redis)
next
  case (Stop_task tid now)
  from stop_task_redis_cases [of tid now "mgr s"] show ?thesis
  proof
    assume "redis (snd (stop_task tid now (mgr s))) = redis (mgr s)"
    then show ?thesis using assms Stop_task by simp
  next
    assume a: "hashes (redis (mgr s)) (get_key tid) \<noteq> None \<and>
      redis (snd (stop_task tid now (mgr s))) =
        update_task tid [(''status'', PStr (status_value STOPPED)), (''stopped_at'', PStr now)]
          (redis (mgr s))"
    then show ?thesis using Stop_task statuses_ok_update [OF assms, of _ tid] by simp
  qed
next
  case (Delete_task tid)
  then show ?thesis using statuses_ok_shrink [OF assms hashes_delete_task] by simp
next
  case (Elapse d)
  then show ?thesis using statuses_ok_shrink [OF assms hashes_elapse] by simp
next
  case (Thread_step i inp)
  show ?thesis
  proof (cases "i < length (threads s)")
    case True
    then show ?thesis unfolding Thread_step
      using statuses_ok_runner_step [OF assms] by (simp only: sys_step_Thread)
  next
    case False
    then have "sys_step c s = s" unfolding Thread_step by (rule sys_step_Thread(3))
    then show ?thesis using assms by simp
  qed
qed

lemma statuses_ok_run:
  "statuses_ok (redis (mgr s)) \<Longrightarrow> statuses_ok (redis (mgr (run cs s)))"
  by (induction cs arbitrary: s) (simp_all add: statuses_ok_sys_step del: sys_step.simps)

text \<open>In every state that the system reaches, a record that \<^verbatim>\<open>get_task\<close> returns has a
  \<open>status\<close>, so \<^verbatim>\<open>task["status"]\<close> raises no \<^verbatim>\<open>KeyError\<close>.\<close>

lemma record_has_status:
  assumes "get_task (redis (mgr (run cs initial_system))) tid = Inr (Some task)"
  shows "task ''status'' \<noteq> None"
proof -
  have "statuses_ok (redis (mgr initial_system))"
    by (simp add: statuses_ok_def initial_system_def new_manager_def empty_db_def)
  then have "statuses_ok (redis (mgr (run cs initial_system)))" by (rule statuses_ok_run)
  then have "hgetall (get_key tid) (redis (mgr (run cs initial_system))) ''status'' \<noteq> None"
    using get_task_Some_hashes(1) [OF assms] by (auto simp add: statuses_ok_def)
  then show ?thesis
    by (auto simp add: get_task_Some_hashes(2) [OF assms] parsed_def parse_value_def
          int_fields_def split: hval.splits)
qed

end
